theory Spec2Isabelle
  imports Complex_Main "HOL-Library.Word"
begin

unbundle bit_operations_syntax

section \<open>Fractal generation engine: a shallow embedding\<close>

text \<open>
  The generators of the Fractal-Visualiser are JavaScript functions over Numbers.
  Where the source only ever holds integers (loop counters, iteration budgets, grid
  indices), a Number is an \<^typ>\<open>int\<close> or a \<^typ>\<open>nat\<close>. The escape loops in the plane,
  the Menger sponge and the constrained chaos game compute on \<^typ>\<open>real\<close> (exact
  arithmetic). Where the non-finite values are what a function tests for (the Newton
  iteration, the 3D escape loops), a Number is a \<open>jsnum\<close>: a real, an infinity or NaN,
  with exact finite arithmetic. The affine chaos game computes on \<open>jsnum\<close> with every
  operation rounded to double precision.
  Calls of \<open>Math.random()\<close> read successive entries of an explicit source
  \<open>rnd :: nat \<Rightarrow> real\<close>; the position in the source is threaded through as state.
\<close>

subsection \<open>Menger sponge (js/3DFractals.js, generateMenger)\<close>

type_synonym vec3 = "real \<times> real \<times> real"

text \<open>
  \<open>level\<close> counts down to the base case \<open>level === 0\<close>; the three nested loops run over
  \<open>[-1, 0, 1]\<close> and \<open>continue\<close> skips an offset with two or more zero components.
\<close>

fun generateMenger :: "nat \<Rightarrow> vec3 \<Rightarrow> real \<Rightarrow> vec3 list" where
  "generateMenger 0 center sz = [center]"
| "generateMenger (Suc level) center sz =
     (let step = sz / 3 in
      concat (map (\<lambda>dx. concat (map (\<lambda>dy. concat (map (\<lambda>dz.
        (let zeros = length (filter (\<lambda>v. v = 0) [dx, dy, dz]) in
         if zeros \<ge> 2 then []
         else (let nx = fst center + dx * step;
                   ny = fst (snd center) + dy * step;
                   nz = snd (snd center) + dz * step
               in generateMenger level (nx, ny, nz) step)))
        [-1, 0, 1])) [-1, 0, 1])) [-1, 0, 1]))"

text \<open>The offsets that survive the \<open>continue\<close>, in loop order.\<close>

definition menger_offsets :: "(real \<times> real \<times> real) list" where
  "menger_offsets =
     concat (map (\<lambda>dx. concat (map (\<lambda>dy. concat (map (\<lambda>dz.
       if length (filter (\<lambda>v. v = 0) [dx, dy, dz]) \<ge> 2 then [] else [(dx, dy, dz)])
       [-1, 0, 1])) [-1, 0, 1])) [-1, 0, 1])"

subsection \<open>Escape time in the plane (js/mandelbrot.js, js/julia.js, drawFractal in unnamed/part_000)\<close>

text \<open>
  \<open>mandelbrotEscape(cx, cy, maxIter)\<close>: the loop state is \<open>(x, y, iter)\<close>, started at
  \<open>(0, 0, 0)\<close>. The budget comes from \<open>parseInt\<close> and is an integer.
\<close>

function mandelbrot_loop :: "real \<Rightarrow> real \<Rightarrow> int \<Rightarrow> real \<Rightarrow> real \<Rightarrow> int \<Rightarrow> int" where
  "mandelbrot_loop cx cy maxIter x y iter =
     (if x * x + y * y \<le> 4 \<and> iter < maxIter
      then (let xtemp = x * x - y * y + cx;
                y' = 2 * x * y + cy
            in mandelbrot_loop cx cy maxIter xtemp y' (iter + 1))
      else iter)"
  by pat_completeness auto
termination
  by (relation "measure (\<lambda>(cx, cy, maxIter, x, y, iter). nat (maxIter - iter))") auto

declare mandelbrot_loop.simps [simp del]

definition mandelbrotEscape :: "real \<Rightarrow> real \<Rightarrow> int \<Rightarrow> int" where
  "mandelbrotEscape cx cy maxIter = mandelbrot_loop cx cy maxIter 0 0 0"

text \<open>
  \<open>juliaEscape(z)\<close> reads the globals \<open>juliaK\<close> and \<open>maxIter\<close>, here parameters (\<open>const max = maxIter\<close> is \<open>mx\<close>); it
  updates the fields of its argument, a fresh object at the only call site.
\<close>

record cplx =
  re :: real
  im :: real

function julia_loop :: "cplx \<Rightarrow> int \<Rightarrow> cplx \<Rightarrow> int \<Rightarrow> int" where
  "julia_loop juliaK mx z iteration =
     (if re z * re z + im z * im z \<le> 4 \<and> iteration < mx
      then (let re' = re z * re z - im z * im z + re juliaK;
                im' = 2 * re z * im z + im juliaK
            in julia_loop juliaK mx (z\<lparr>re := re', im := im'\<rparr>) (iteration + 1))
      else iteration)"
  by pat_completeness auto
termination
  by (relation "measure (\<lambda>(juliaK, mx, z, iteration). nat (mx - iteration))") auto

declare julia_loop.simps [simp del]

definition juliaEscape :: "cplx \<Rightarrow> int \<Rightarrow> cplx \<Rightarrow> int" where
  "juliaEscape juliaK maxIter z = julia_loop juliaK maxIter z 0"

text \<open>
  The per-pixel body of \<open>drawFractal\<close> in the combined viewer: \<open>mode\<close> selects the
  start value and the additive constant, then one shared loop runs. \<open>c\<close> is the
  pixel's point \<open>{real, imag}\<close>, \<open>constantK\<close> the global constant.
\<close>

datatype mode = Mandelbrot | Julia

function drawFractal_loop :: "real \<Rightarrow> real \<Rightarrow> int \<Rightarrow> real \<Rightarrow> real \<Rightarrow> int \<Rightarrow> int" where
  "drawFractal_loop cx cy maxIter zx zy iter =
     (if zx * zx + zy * zy \<le> 4 \<and> iter < maxIter
      then (let xtemp = zx * zx - zy * zy + cx;
                zy' = 2 * zx * zy + cy
            in drawFractal_loop cx cy maxIter xtemp zy' (iter + 1))
      else iter)"
  by pat_completeness auto
termination
  by (relation "measure (\<lambda>(cx, cy, maxIter, zx, zy, iter). nat (maxIter - iter))") auto

declare drawFractal_loop.simps [simp del]

definition drawFractal_iter :: "mode \<Rightarrow> real \<times> real \<Rightarrow> real \<times> real \<Rightarrow> int \<Rightarrow> int" where
  "drawFractal_iter mode c constantK maxIter =
     (let (zx, zy, cx, cy) =
            (if mode = Mandelbrot then (0, 0, fst c, snd c)
             else (fst c, snd c, fst constantK, snd constantK))
      in drawFractal_loop cx cy maxIter zx zy 0)"

subsection \<open>L-system rewriting (unnamed/part_000, generateLSystemString)\<close>

text \<open>
  \<open>rules\<close> is an object used as a dictionary from one-character keys to strings; the
  loop \<open>for (let char of result)\<close> visits the string symbol by symbol.
  \<open>rules[char] || char\<close> falls back to the character when there is no entry and also
  when the entry is the empty string (which is falsy).
\<close>

type_synonym rules = "char \<rightharpoonup> string"

definition rewrite_char :: "rules \<Rightarrow> char \<Rightarrow> string" where
  "rewrite_char rules c =
     (case rules c of None \<Rightarrow> [c] | Some r \<Rightarrow> (if r = [] then [c] else r))"

text \<open>The inner loop: \<open>next\<close> starts empty and grows by one replacement per character.\<close>

fun rewrite_pass :: "rules \<Rightarrow> string \<Rightarrow> string \<Rightarrow> string" where
  "rewrite_pass rules next [] = next"
| "rewrite_pass rules next (c # result) = rewrite_pass rules (next @ rewrite_char rules c) result"

function lsystem_loop :: "rules \<Rightarrow> int \<Rightarrow> int \<Rightarrow> string \<Rightarrow> string" where
  "lsystem_loop rules iterations i result =
     (if i < iterations
      then lsystem_loop rules iterations (i + 1) (rewrite_pass rules [] result)
      else result)"
  by pat_completeness auto
termination
  by (relation "measure (\<lambda>(rules, iterations, i, result). nat (iterations - i))") auto

declare lsystem_loop.simps [simp del]

definition generateLSystemString :: "string \<Rightarrow> rules \<Rightarrow> int \<Rightarrow> string" where
  "generateLSystemString axiom rules iterations = lsystem_loop rules iterations 0 axiom"

text \<open>The one-rule grammar \<open>F \<rightarrow> F+F\<close> used as the rewriting example.\<close>

definition F_rule :: rules where
  "F_rule = [CHR ''F'' \<mapsto> ''F+F'']"

subsection \<open>Bitwise operators on Numbers\<close>

text \<open>
  A bitwise operator converts its operands with ToInt32 (an integer-valued Number is
  reduced modulo \<open>2 ^ 32\<close> and read as signed), takes a shift count modulo 32, and
  yields a signed 32-bit integer. \<open>>>\<close> is the sign-propagating shift.
\<close>

definition toInt32 :: "int \<Rightarrow> 32 word" where
  "toInt32 v = word_of_int v"

definition js_sar :: "int \<Rightarrow> int \<Rightarrow> int" where
  "js_sar a b = sint (signed_drop_bit (nat (b mod 32)) (toInt32 a))"

definition js_shl :: "int \<Rightarrow> int \<Rightarrow> int" where
  "js_shl a b = sint (push_bit (nat (b mod 32)) (toInt32 a))"

definition js_and :: "int \<Rightarrow> int \<Rightarrow> int" where
  "js_and a b = sint (toInt32 a AND toInt32 b)"

definition js_or :: "int \<Rightarrow> int \<Rightarrow> int" where
  "js_or a b = sint (toInt32 a OR toInt32 b)"

definition js_xor :: "int \<Rightarrow> int \<Rightarrow> int" where
  "js_xor a b = sint (toInt32 a XOR toInt32 b)"

subsection \<open>Hilbert curve, bit form (unnamed/part_003, generateHilbert)\<close>

definition rot :: "int \<Rightarrow> int \<Rightarrow> int \<Rightarrow> int \<Rightarrow> int \<Rightarrow> int \<times> int" where
  "rot n x y rx ry =
     (if ry = 0
      then (let (x1, y1) = (if rx = 1 then (n - 1 - x, n - 1 - y) else (x, y))
            in (y1, x1))
      else (x, y))"

text \<open>
  The inner loop \<open>for (let s = 1; s < N; s *= 2)\<close> with its state \<open>(s, t, x, y)\<close>. Nothing
  in the loop bounds \<open>s\<close> from below, so it is a partial function: \<open>None\<close> stands for
  a run that does not end.
\<close>

partial_function (option) hilbert_loop ::
  "int \<Rightarrow> int \<Rightarrow> int \<Rightarrow> int \<Rightarrow> int \<Rightarrow> (int \<times> int) option" where
  "hilbert_loop N s t x y =
     (if s < N
      then (let rx = js_and 1 (js_sar t 1);
                ry = js_and 1 (js_xor t rx);
                (x1, y1) = rot s x y rx ry;
                x2 = x1 + s * rx;
                y2 = y1 + s * ry;
                t' = t div 4
            in hilbert_loop N (s * 2) t' x2 y2)
      else Some (x, y))"

text \<open>
  The body of the outer loop for one distance \<open>d\<close>, up to the pair \<open>(x, y)\<close> that is
  then scaled by \<open>width / (N - 1)\<close> and \<open>height / (N - 1)\<close> and passed to the view
  transform; \<open>N = Math.pow(2, n)\<close>.
\<close>

definition hilbert_d2xy :: "nat \<Rightarrow> int \<Rightarrow> (int \<times> int) option" where
  "hilbert_d2xy n d = hilbert_loop (2 ^ n) 1 d 0 0"

definition generateHilbert_cells :: "nat \<Rightarrow> (int \<times> int) option list" where
  "generateHilbert_cells n = map (\<lambda>d. hilbert_d2xy n (int d)) [0 ..< 2 ^ n * 2 ^ n]"

subsection \<open>Z-order curve (unnamed/part_003, generateZOrder)\<close>

text \<open>The bit loop for one index \<open>i\<close>; \<open>b\<close> is the source's loop variable \<open>bit\<close>.\<close>

function zorder_loop :: "int \<Rightarrow> int \<Rightarrow> int \<Rightarrow> int \<Rightarrow> int \<Rightarrow> int \<times> int" where
  "zorder_loop n i b x y =
     (if b < n
      then (let x' = js_or x (js_shl (js_and (js_sar i (2 * b + 1)) 1) b);
                y' = js_or y (js_shl (js_and (js_sar i (2 * b)) 1) b)
            in zorder_loop n i (b + 1) x' y')
      else (x, y))"
  by pat_completeness auto
termination
  by (relation "measure (\<lambda>(n, i, b, x, y). nat (n - b))") auto

declare zorder_loop.simps [simp del]

text \<open>
  The cells in emission order, before the scaling to the canvas and the view transform;
  \<open>size = Math.pow(2, n)\<close>.
\<close>

definition generateZOrder_cells :: "nat \<Rightarrow> (int \<times> int) list" where
  "generateZOrder_cells n =
     map (\<lambda>i. zorder_loop (int n) (int i) 0 0 0) [0 ..< 2 ^ n * 2 ^ n]"

subsection \<open>Numbers with non-finite values\<close>

text \<open>
  A Number that may be non-finite: a real, \<open>+Infinity\<close>, \<open>-Infinity\<close> or \<open>NaN\<close>. Finite
  arithmetic is exact, the two zeros are one value (taken as positive where a sign is
  asked for), and every operation follows the IEEE 754 rules for the non-finite values:
  NaN propagates, \<open>Infinity - Infinity\<close>, \<open>0 * Infinity\<close>, \<open>0 / 0\<close> and
  \<open>Infinity / Infinity\<close> are NaN, and every ordered comparison with NaN is false.
\<close>

datatype jsnum = Fin real | PInf | NInf | NaN

fun js_neg :: "jsnum \<Rightarrow> jsnum" where
  "js_neg (Fin a) = Fin (- a)"
| "js_neg PInf = NInf"
| "js_neg NInf = PInf"
| "js_neg NaN = NaN"

fun js_add :: "jsnum \<Rightarrow> jsnum \<Rightarrow> jsnum" where
  "js_add NaN b = NaN"
| "js_add a NaN = NaN"
| "js_add (Fin a) (Fin b) = Fin (a + b)"
| "js_add PInf NInf = NaN"
| "js_add NInf PInf = NaN"
| "js_add PInf b = PInf"
| "js_add a PInf = PInf"
| "js_add NInf b = NInf"
| "js_add a NInf = NInf"

definition js_sub :: "jsnum \<Rightarrow> jsnum \<Rightarrow> jsnum" where
  "js_sub a b = js_add a (js_neg b)"

text \<open>The sign of a non-NaN value; zero counts as positive.\<close>

fun js_negative :: "jsnum \<Rightarrow> bool" where
  "js_negative (Fin a) = (a < 0)"
| "js_negative NInf = True"
| "js_negative b = False"

fun js_mul :: "jsnum \<Rightarrow> jsnum \<Rightarrow> jsnum" where
  "js_mul NaN b = NaN"
| "js_mul a NaN = NaN"
| "js_mul (Fin a) (Fin b) = Fin (a * b)"
| "js_mul a b =
     (if a = Fin 0 \<or> b = Fin 0 then NaN
      else if js_negative a = js_negative b then PInf else NInf)"

fun js_div :: "jsnum \<Rightarrow> jsnum \<Rightarrow> jsnum" where
  "js_div NaN b = NaN"
| "js_div a NaN = NaN"
| "js_div (Fin a) (Fin b) =
     (if b = 0 then (if a = 0 then NaN else if a < 0 then NInf else PInf)
      else Fin (a / b))"
| "js_div (Fin a) b = Fin 0"
| "js_div a (Fin b) = (if js_negative a = (b < 0) then PInf else NInf)"
| "js_div a b = NaN"

fun js_lt :: "jsnum \<Rightarrow> jsnum \<Rightarrow> bool" where
  "js_lt NaN b = False"
| "js_lt a NaN = False"
| "js_lt (Fin a) (Fin b) = (a < b)"
| "js_lt a PInf = (a \<noteq> PInf)"
| "js_lt NInf b = (b \<noteq> NInf)"
| "js_lt a b = False"

text \<open>\<open>a > b\<close> is \<open>b < a\<close>; \<open>===\<close> on Numbers is false when either side is NaN.\<close>

definition js_gt :: "jsnum \<Rightarrow> jsnum \<Rightarrow> bool" where
  "js_gt a b = js_lt b a"

definition js_eq :: "jsnum \<Rightarrow> jsnum \<Rightarrow> bool" where
  "js_eq a b = (a \<noteq> NaN \<and> b \<noteq> NaN \<and> a = b)"

fun js_isFinite :: "jsnum \<Rightarrow> bool" where
  "js_isFinite (Fin a) = True"
| "js_isFinite a = False"

fun js_sqrt :: "jsnum \<Rightarrow> jsnum" where
  "js_sqrt (Fin a) = (if a < 0 then NaN else Fin (sqrt a))"
| "js_sqrt PInf = PInf"
| "js_sqrt a = NaN"

text \<open>\<open>Math.hypot\<close>: an infinite argument wins over a NaN argument.\<close>

fun js_hypot :: "jsnum \<Rightarrow> jsnum \<Rightarrow> jsnum" where
  "js_hypot (Fin a) (Fin b) = Fin (sqrt (a * a + b * b))"
| "js_hypot a b =
     (if a = PInf \<or> a = NInf \<or> b = PInf \<or> b = NInf then PInf else NaN)"

subsection \<open>Constrained chaos game (unnamed/part_000, generateChaosGame)\<close>

text \<open>Vectors are arrays \<open>[x, y, z]\<close>; \<open>len3(v) || 1\<close> replaces a zero length by 1.\<close>

definition add3 :: "vec3 \<Rightarrow> vec3 \<Rightarrow> vec3" where
  "add3 a b = (fst a + fst b, fst (snd a) + fst (snd b), snd (snd a) + snd (snd b))"

definition scale3 :: "vec3 \<Rightarrow> real \<Rightarrow> vec3" where
  "scale3 v s = (fst v * s, fst (snd v) * s, snd (snd v) * s)"

definition dot3 :: "vec3 \<Rightarrow> vec3 \<Rightarrow> real" where
  "dot3 a b = fst a * fst b + fst (snd a) * fst (snd b) + snd (snd a) * snd (snd b)"

definition len3 :: "vec3 \<Rightarrow> real" where
  "len3 v = sqrt (dot3 v v)"

definition normalise :: "vec3 \<Rightarrow> vec3" where
  "normalise v =
     (let L = (if len3 v = 0 then 1 else len3 v)
      in (fst v / L, fst (snd v) / L, snd (snd v) / L))"

record constraints =
  noRepeat :: bool
  noOppFace :: bool

definition oppThresh :: real where
  "oppThresh = - 0.2"

text \<open>
  \<open>(Math.random() * targets.length) | 0\<close>: the product is truncated to an integer and
  converted by the bitwise operator. \<open>Math.random()\<close> yields values in \<open>[0, 1)\<close>, so the
  index is below \<open>targets.length\<close> and every read \<open>targets[idx]\<close> is in range.
\<close>

definition random_index :: "real \<Rightarrow> nat \<Rightarrow> int" where
  "random_index u len =
     (let v = u * real len
      in js_or (if v < 0 then \<lceil>v\<rceil> else \<lfloor>v\<rfloor>) 0)"

text \<open>
  The retry loop \<open>for (let guard = 0; guard < 20; guard++)\<close>. Its state is \<open>idx\<close>
  (\<open>undefined\<close>, here \<open>None\<close>, before the first draw) and the position \<open>ctr\<close> in the
  random source. The third component of the result records whether the loop was left
  by \<open>break\<close>.
\<close>

function retry_loop ::
  "vec3 list \<Rightarrow> constraints \<Rightarrow> (nat \<Rightarrow> real) \<Rightarrow> vec3 \<Rightarrow> int \<Rightarrow> nat \<Rightarrow> nat \<Rightarrow> int option
     \<Rightarrow> int option \<times> nat \<times> bool" where
  "retry_loop targets cons rnd p lastIndex guard ctr idx =
     (if guard < 20
      then (let idx' = random_index (rnd ctr) (length targets)
            in if noRepeat cons \<and> idx' = lastIndex
               then retry_loop targets cons rnd p lastIndex (guard + 1) (ctr + 1) (Some idx')
               else if noOppFace cons \<and> dot3 (normalise p) (targets ! nat idx') < oppThresh
               then retry_loop targets cons rnd p lastIndex (guard + 1) (ctr + 1) (Some idx')
               else (Some idx', ctr + 1, True))
      else (idx, ctr, False))"
  by pat_completeness auto
termination
  by (relation "measure (\<lambda>(targets, cons, rnd, p, lastIndex, guard, ctr, idx). 20 - guard)") auto

declare retry_loop.simps [simp del]

text \<open>
  The outer loop. Besides \<open>pts\<close> it collects, for the statements below, the index chosen
  in each step together with the flag of the retry loop.
\<close>

function chaos_loop ::
  "vec3 list \<Rightarrow> real \<Rightarrow> nat \<Rightarrow> constraints \<Rightarrow> (nat \<Rightarrow> real) \<Rightarrow> nat \<Rightarrow> vec3 \<Rightarrow> int \<Rightarrow> nat
     \<Rightarrow> vec3 list \<Rightarrow> (int \<times> bool) list \<Rightarrow> vec3 list \<times> (int \<times> bool) list" where
  "chaos_loop targets lambda iters cons rnd i p lastIndex ctr pts trace =
     (if i < iters
      then (let (idx, ctr', accepted) = retry_loop targets cons rnd p lastIndex 0 ctr None;
                t = targets ! nat (the idx);
                p' = add3 (scale3 p (1 - lambda)) (scale3 t lambda)
            in chaos_loop targets lambda iters cons rnd (i + 1) p' (the idx) ctr'
                 (pts @ [p']) (trace @ [(the idx, accepted)]))
      else (pts, trace))"
  by pat_completeness auto
termination
  by (relation "measure (\<lambda>(targets, lambda, iters, cons, rnd, i, p, lastIndex, ctr, pts, trace). iters - i)")
    auto

declare chaos_loop.simps [simp del]

definition chaos_run ::
  "vec3 list \<Rightarrow> real \<Rightarrow> nat \<Rightarrow> constraints \<Rightarrow> (nat \<Rightarrow> real) \<Rightarrow> vec3 list \<times> (int \<times> bool) list" where
  "chaos_run targets lambda iters cons rnd =
     (if targets = [] then ([], [])
      else chaos_loop targets lambda iters cons rnd 0 (0, 0, 0) (- 1) 0 [] [])"

definition generateChaosGame ::
  "vec3 list \<Rightarrow> real \<Rightarrow> nat \<Rightarrow> constraints \<Rightarrow> (nat \<Rightarrow> real) \<Rightarrow> vec3 list" where
  "generateChaosGame targets lambda iters cons rnd = fst (chaos_run targets lambda iters cons rnd)"

definition chaos_trace ::
  "vec3 list \<Rightarrow> real \<Rightarrow> nat \<Rightarrow> constraints \<Rightarrow> (nat \<Rightarrow> real) \<Rightarrow> (int \<times> bool) list" where
  "chaos_trace targets lambda iters cons rnd = snd (chaos_run targets lambda iters cons rnd)"

text \<open>
  A draw is rejected when one of the two \<open>continue\<close> tests fires. \<open>trace_ok\<close> says that
  every index accepted by \<open>break\<close> differs from the index before it.
\<close>

definition rejected :: "vec3 list \<Rightarrow> constraints \<Rightarrow> vec3 \<Rightarrow> int \<Rightarrow> int \<Rightarrow> bool" where
  "rejected targets cons p lastIndex ix =
     ((noRepeat cons \<and> ix = lastIndex)
      \<or> (noOppFace cons \<and> dot3 (normalise p) (targets ! nat ix) < oppThresh))"

fun trace_ok :: "int \<Rightarrow> (int \<times> bool) list \<Rightarrow> bool" where
  "trace_ok prev [] = True"
| "trace_ok prev ((ix, accepted) # rest) = ((accepted \<longrightarrow> ix \<noteq> prev) \<and> trace_ok ix rest)"

text \<open>\<open>solids.tetra.vertices\<close>, and the constraint object with only \<open>noRepeat\<close> set.\<close>

definition tetra_vertices :: "vec3 list" where
  "tetra_vertices = [(1, 1, 1), (1, - 1, - 1), (- 1, 1, - 1), (- 1, - 1, 1)]"

definition noRepeat_only :: constraints where
  "noRepeat_only = \<lparr>noRepeat = True, noOppFace = False\<rparr>"

subsection \<open>Newton fractal (unnamed/part_001)\<close>

text \<open>Complex values \<open>{r, i}\<close>; the fields are \<open>cr\<close> and \<open>ci\<close> here.\<close>

record ncplx =
  cr :: jsnum
  ci :: jsnum

definition cAdd :: "ncplx \<Rightarrow> ncplx \<Rightarrow> ncplx" where
  "cAdd a b = \<lparr>cr = js_add (cr a) (cr b), ci = js_add (ci a) (ci b)\<rparr>"

definition cSub :: "ncplx \<Rightarrow> ncplx \<Rightarrow> ncplx" where
  "cSub a b = \<lparr>cr = js_sub (cr a) (cr b), ci = js_sub (ci a) (ci b)\<rparr>"

definition cMul :: "ncplx \<Rightarrow> ncplx \<Rightarrow> ncplx" where
  "cMul a b = \<lparr>cr = js_sub (js_mul (cr a) (cr b)) (js_mul (ci a) (ci b)),
              ci = js_add (js_mul (cr a) (ci b)) (js_mul (ci a) (cr b))\<rparr>"

definition cDiv :: "ncplx \<Rightarrow> ncplx \<Rightarrow> ncplx" where
  "cDiv a b =
     (let denominator = js_add (js_mul (cr b) (cr b)) (js_mul (ci b) (ci b))
      in if js_eq denominator (Fin 0) then \<lparr>cr = PInf, ci = PInf\<rparr>
         else \<lparr>cr = js_div (js_add (js_mul (cr a) (cr b)) (js_mul (ci a) (ci b))) denominator,
               ci = js_div (js_sub (js_mul (ci a) (cr b)) (js_mul (cr a) (ci b))) denominator\<rparr>)"

definition cAbs :: "ncplx \<Rightarrow> jsnum" where
  "cAbs a = js_hypot (cr a) (ci a)"

definition cScale :: "ncplx \<Rightarrow> jsnum \<Rightarrow> ncplx" where
  "cScale a s = \<lparr>cr = js_mul (cr a) s, ci = js_mul (ci a) s\<rparr>"

definition cSqr :: "ncplx \<Rightarrow> ncplx" where
  "cSqr a = cMul a a"

definition cCube :: "ncplx \<Rightarrow> ncplx" where
  "cCube a = cMul (cMul a a) a"

text \<open>\<open>f(z) = z^3 + (k - 1) z - k\<close> (the source's \<open>f\<close>) and its derivative.\<close>

definition newton_f :: "ncplx \<Rightarrow> ncplx \<Rightarrow> ncplx" where
  "newton_f z k =
     (let kMinus1 = \<lparr>cr = js_sub (cr k) (Fin 1), ci = ci k\<rparr>
      in cSub (cAdd (cCube z) (cMul kMinus1 z)) k)"

definition derivF :: "ncplx \<Rightarrow> ncplx \<Rightarrow> ncplx" where
  "derivF z k =
     (let threeZ2 = cScale (cSqr z) (Fin 3);
          kMinus1 = \<lparr>cr = js_sub (cr k) (Fin 1), ci = ci k\<rparr>
      in cAdd threeZ2 kMinus1)"

text \<open>
  \<open>classifyRoot(z, roots, tol = 1e-6)\<close> scans the registry and appends \<open>z\<close> when nothing
  is within \<open>tol\<close>; it returns the index together with the registry it leaves behind.
  \<open>newtonConverge\<close> calls it without a third argument.
\<close>

function classifyRoot_loop :: "ncplx \<Rightarrow> ncplx list \<Rightarrow> jsnum \<Rightarrow> nat \<Rightarrow> int \<times> ncplx list" where
  "classifyRoot_loop z roots tol i =
     (if i < length roots
      then (if js_lt (cAbs (cSub z (roots ! i))) tol then (int i, roots)
            else classifyRoot_loop z roots tol (i + 1))
      else (int (length (roots @ [z])) - 1, roots @ [z]))"
  by pat_completeness auto
termination
  by (relation "measure (\<lambda>(z, roots, tol, i). length roots - i)") auto

declare classifyRoot_loop.simps [simp del]

definition classifyRoot :: "ncplx \<Rightarrow> ncplx list \<Rightarrow> int \<times> ncplx list" where
  "classifyRoot z roots = classifyRoot_loop z roots (Fin (1 / 10 ^ 6)) 0"

text \<open>
  \<open>newtonConverge(z0, k, maxIter, tol, roots)\<close>: the \<open>break\<close> leaves the loop for the
  final \<open>return\<close>. The result is paired with the registry after the call. No operation
  of the loop can throw, so there is no error branch.
\<close>

record newton_result =
  hit :: bool
  idx :: int
  iter :: int

function newton_loop ::
  "ncplx \<Rightarrow> int \<Rightarrow> jsnum \<Rightarrow> ncplx list \<Rightarrow> ncplx \<Rightarrow> int \<Rightarrow> newton_result \<times> ncplx list" where
  "newton_loop k maxIter tol roots z it =
     (if it < maxIter
      then (let fz = newton_f z k;
                dfz = derivF z k;
                dfzAbs = cAbs dfz
            in if \<not> js_isFinite dfzAbs \<or> js_eq dfzAbs (Fin 0)
               then (\<lparr>hit = False, idx = - 1, iter = maxIter\<rparr>, roots)
               else (let step = cDiv fz dfz;
                         z' = cSub z step
                     in if js_lt (cAbs fz) tol
                        then (let (ix, roots') = classifyRoot z' roots
                              in (\<lparr>hit = True, idx = ix, iter = it\<rparr>, roots'))
                        else newton_loop k maxIter tol roots z' (it + 1)))
      else (\<lparr>hit = False, idx = - 1, iter = maxIter\<rparr>, roots))"
  by pat_completeness auto
termination
  by (relation "measure (\<lambda>(k, maxIter, tol, roots, z, it). nat (maxIter - it))") auto

declare newton_loop.simps [simp del]

definition newtonConverge ::
  "ncplx \<Rightarrow> ncplx \<Rightarrow> int \<Rightarrow> jsnum \<Rightarrow> ncplx list \<Rightarrow> newton_result \<times> ncplx list" where
  "newtonConverge z0 k maxIter tol roots =
     newton_loop k maxIter tol roots \<lparr>cr = cr z0, ci = ci z0\<rparr> 0"

text \<open>
  The test that guards the division, and one Newton step; \<open>newton_next k ^^ j\<close> is the
  \<open>j\<close>-th point of the trajectory.
\<close>

definition newton_degenerate :: "ncplx \<Rightarrow> ncplx \<Rightarrow> bool" where
  "newton_degenerate k z =
     (\<not> js_isFinite (cAbs (derivF z k)) \<or> js_eq (cAbs (derivF z k)) (Fin 0))"

definition newton_next :: "ncplx \<Rightarrow> ncplx \<Rightarrow> ncplx" where
  "newton_next k z = cSub z (cDiv (newton_f z k) (derivF z k))"

subsection \<open>Mandelbulb and Julia-3D (js/3DFractals.js)\<close>

text \<open>
  The functions of \<open>Math\<close> used by the 3D loops, on Numbers with non-finite values:
  \<open>sin\<close> and \<open>cos\<close> of an infinity or NaN are NaN, \<open>acos\<close> is NaN outside \<open>[-1, 1]\<close>,
  \<open>atan2\<close> and \<open>pow\<close> follow the case tables of the language standard (without the
  distinction of the two zeros).
\<close>

fun js_sin :: "jsnum \<Rightarrow> jsnum" where
  "js_sin (Fin a) = Fin (sin a)"
| "js_sin a = NaN"

fun js_cos :: "jsnum \<Rightarrow> jsnum" where
  "js_cos (Fin a) = Fin (cos a)"
| "js_cos a = NaN"

fun js_acos :: "jsnum \<Rightarrow> jsnum" where
  "js_acos (Fin a) = (if - 1 \<le> a \<and> a \<le> 1 then Fin (arccos a) else NaN)"
| "js_acos a = NaN"

definition atan2_real :: "real \<Rightarrow> real \<Rightarrow> real" where
  "atan2_real y x =
     (if 0 < x then arctan (y / x)
      else if x < 0 then (if 0 \<le> y then arctan (y / x) + pi else arctan (y / x) - pi)
      else if 0 < y then pi / 2 else if y < 0 then - pi / 2 else 0)"

fun js_atan2 :: "jsnum \<Rightarrow> jsnum \<Rightarrow> jsnum" where
  "js_atan2 NaN x = NaN"
| "js_atan2 y NaN = NaN"
| "js_atan2 (Fin y) (Fin x) = Fin (atan2_real y x)"
| "js_atan2 (Fin y) PInf = Fin 0"
| "js_atan2 (Fin y) NInf = Fin (if y < 0 then - pi else pi)"
| "js_atan2 PInf (Fin x) = Fin (pi / 2)"
| "js_atan2 NInf (Fin x) = Fin (- pi / 2)"
| "js_atan2 PInf PInf = Fin (pi / 4)"
| "js_atan2 PInf NInf = Fin (3 * pi / 4)"
| "js_atan2 NInf PInf = Fin (- pi / 4)"
| "js_atan2 NInf NInf = Fin (- 3 * pi / 4)"

definition odd_integer :: "real \<Rightarrow> bool" where
  "odd_integer e = (of_int \<lfloor>e\<rfloor> = e \<and> odd \<lfloor>e\<rfloor>)"

fun js_pow :: "jsnum \<Rightarrow> jsnum \<Rightarrow> jsnum" where
  "js_pow b NaN = NaN"
| "js_pow b (Fin e) =
     (if e = 0 then Fin 1
      else (case b of
              NaN \<Rightarrow> NaN
            | PInf \<Rightarrow> (if 0 < e then PInf else Fin 0)
            | NInf \<Rightarrow> (if 0 < e then (if odd_integer e then NInf else PInf) else Fin 0)
            | Fin a \<Rightarrow>
                (if a = 0 then (if 0 < e then Fin 0 else PInf)
                 else if 0 < a then Fin (a powr e)
                 else if of_int \<lfloor>e\<rfloor> \<noteq> e then NaN
                 else if odd \<lfloor>e\<rfloor> then Fin (- ((- a) powr e))
                 else Fin ((- a) powr e))))"
| "js_pow b PInf =
     (case b of
        NaN \<Rightarrow> NaN
      | Fin a \<Rightarrow> (if 1 < \<bar>a\<bar> then PInf else if \<bar>a\<bar> = 1 then NaN else Fin 0)
      | _ \<Rightarrow> PInf)"
| "js_pow b NInf =
     (case b of
        NaN \<Rightarrow> NaN
      | Fin a \<Rightarrow> (if 1 < \<bar>a\<bar> then Fin 0 else if \<bar>a\<bar> = 1 then NaN else PInf)
      | _ \<Rightarrow> Fin 0)"

text \<open>
  The inner loop of \<open>generateMandelbulb\<close> and of \<open>generateJulia3D\<close>: the two copies in
  the source differ only in the constant added after the power step, the seed
  \<open>(x, y, z)\<close> in the first and the parameter \<open>c\<close> in the second; here it is
  \<open>(cx, cy, cz)\<close>. \<open>pwr\<close> is the source's \<open>power\<close>. The result is the flag \<open>escaped\<close> and
  the last \<open>(zx, zy, zz)\<close>. The variable \<open>dr\<close> of the first copy is never read and is
  left out.
\<close>

type_synonym jsvec3 = "jsnum \<times> jsnum \<times> jsnum"

function escape3D_loop ::
  "nat \<Rightarrow> jsnum \<Rightarrow> jsnum \<Rightarrow> jsvec3 \<Rightarrow> nat \<Rightarrow> jsvec3 \<Rightarrow> bool \<times> jsvec3" where
  "escape3D_loop iterations pwr bailout (cx, cy, cz) n (zx, zy, zz) =
     (if n < iterations
      then (let r = js_sqrt (js_add (js_add (js_mul zx zx) (js_mul zy zy)) (js_mul zz zz))
            in if js_gt r bailout then (True, (zx, zy, zz))
               else (let theta = js_acos (js_div zz r);
                         phi = js_atan2 zy zx;
                         rn = js_pow r pwr;
                         theta' = js_mul theta pwr;
                         phi' = js_mul phi pwr;
                         zx' = js_add (js_mul (js_mul rn (js_sin theta')) (js_cos phi')) cx;
                         zy' = js_add (js_mul (js_mul rn (js_sin theta')) (js_sin phi')) cy;
                         zz' = js_add (js_mul rn (js_cos theta')) cz
                     in escape3D_loop iterations pwr bailout (cx, cy, cz) (n + 1) (zx', zy', zz')))
      else (False, (zx, zy, zz)))"
  by pat_completeness auto
termination
  by (relation "measure (\<lambda>(iterations, pwr, bailout, c, n, z). iterations - n)") auto

declare escape3D_loop.simps [simp del]

text \<open>
  Seed \<open>i\<close> takes three draws, each mapped to \<open>[-1.5, 1.5)\<close>. A seed is pushed only
  when \<open>escaped\<close> is false: the Mandelbulb pushes the seed, Julia-3D the final point.
\<close>

definition random_seed :: "(nat \<Rightarrow> real) \<Rightarrow> nat \<Rightarrow> jsvec3" where
  "random_seed rnd i =
     (Fin (rnd (3 * i) * 3 - 1.5), Fin (rnd (3 * i + 1) * 3 - 1.5), Fin (rnd (3 * i + 2) * 3 - 1.5))"

definition generateMandelbulb ::
  "nat \<Rightarrow> jsnum \<Rightarrow> jsnum \<Rightarrow> nat \<Rightarrow> (nat \<Rightarrow> real) \<Rightarrow> jsvec3 list" where
  "generateMandelbulb iterations pwr bailout density rnd =
     concat (map (\<lambda>i.
       (let xyz = random_seed rnd i;
            (escaped, z) = escape3D_loop iterations pwr bailout xyz 0 xyz
        in if \<not> escaped then [xyz] else [])) [0 ..< density])"

definition generateJulia3D ::
  "nat \<Rightarrow> jsnum \<Rightarrow> jsnum \<Rightarrow> nat \<Rightarrow> jsvec3 \<Rightarrow> (nat \<Rightarrow> real) \<Rightarrow> jsvec3 list" where
  "generateJulia3D iterations pwr bailout density c rnd =
     concat (map (\<lambda>i.
       (let (escaped, z) = escape3D_loop iterations pwr bailout c 0 (random_seed rnd i)
        in if \<not> escaped then [z] else [])) [0 ..< density])"

text \<open>
  The radius tested against the bailout, and the body of one iteration after the test;
  \<open>escape3D_step pwr c ^^ j\<close> is the \<open>j\<close>-th point of a trajectory that has not bailed
  out. A vector has a NaN when one coordinate is NaN; it is infinite when no coordinate
  is NaN and one is an infinity.
\<close>

definition escape3D_radius :: "jsvec3 \<Rightarrow> jsnum" where
  "escape3D_radius v =
     (case v of (zx, zy, zz) \<Rightarrow>
        js_sqrt (js_add (js_add (js_mul zx zx) (js_mul zy zy)) (js_mul zz zz)))"

definition escape3D_step :: "jsnum \<Rightarrow> jsvec3 \<Rightarrow> jsvec3 \<Rightarrow> jsvec3" where
  "escape3D_step pwr c v =
     (case c of (cx, cy, cz) \<Rightarrow> case v of (zx, zy, zz) \<Rightarrow>
        (let r = escape3D_radius (zx, zy, zz);
             theta = js_acos (js_div zz r);
             phi = js_atan2 zy zx;
             rn = js_pow r pwr;
             theta' = js_mul theta pwr;
             phi' = js_mul phi pwr
         in (js_add (js_mul (js_mul rn (js_sin theta')) (js_cos phi')) cx,
             js_add (js_mul (js_mul rn (js_sin theta')) (js_sin phi')) cy,
             js_add (js_mul rn (js_cos theta')) cz)))"

definition vec_has_NaN :: "jsvec3 \<Rightarrow> bool" where
  "vec_has_NaN v = (case v of (zx, zy, zz) \<Rightarrow> zx = NaN \<or> zy = NaN \<or> zz = NaN)"

definition vec_infinite :: "jsvec3 \<Rightarrow> bool" where
  "vec_infinite v =
     (case v of (zx, zy, zz) \<Rightarrow>
        zx \<noteq> NaN \<and> zy \<noteq> NaN \<and> zz \<noteq> NaN
        \<and> (\<not> js_isFinite zx \<or> \<not> js_isFinite zy \<or> \<not> js_isFinite zz))"

text \<open>A random source whose first seed is \<open>(0, 0, 1)\<close>.\<close>

definition julia3D_example_rnd :: "nat \<Rightarrow> real" where
  "julia3D_example_rnd m = (if m = 2 then 5 / 6 else 1 / 2)"

subsection \<open>Double-precision rounding\<close>

text \<open>
  The arithmetic of the affine chaos game is modelled with its rounding. A finite
  Number is a binary64 value: an integer multiple of the unit in the last place of its
  binade, \<open>2 ^ (e - 52)\<close> for \<open>2 ^ e \<le> |x| < 2 ^ (e + 1)\<close> with \<open>e \<ge> -1022\<close>, and of
  \<open>2 ^ -1074\<close> below \<open>2 ^ -1022\<close> (the subnormal values); \<open>is_double\<close> says that, with
  \<open>|x| < 2 ^ 1024\<close>. An operation returns the exact result rounded to the nearest such
  value, ties to the even multiple (\<open>round_double\<close>), and an infinity when the rounded
  magnitude reaches \<open>2 ^ 1024\<close> (\<open>round_js\<close>). The two zeros are one value.
\<close>

definition dbl_min_normal :: real where
  "dbl_min_normal = 1 / 2 ^ 1022"

definition dbl_exponent :: "real \<Rightarrow> int" where
  "dbl_exponent x = (if \<bar>x\<bar> < dbl_min_normal then - 1022 else \<lfloor>log 2 \<bar>x\<bar>\<rfloor>)"

definition dbl_ulp :: "real \<Rightarrow> real" where
  "dbl_ulp x = 2 powr (of_int (dbl_exponent x) - 52)"

definition round_half_even :: "real \<Rightarrow> int" where
  "round_half_even t =
     (let f = \<lfloor>t\<rfloor>
      in if t - of_int f < 1 / 2 then f
         else if 1 / 2 < t - of_int f then f + 1
         else if even f then f else f + 1)"

definition round_double :: "real \<Rightarrow> real" where
  "round_double x = dbl_ulp x * of_int (round_half_even (x / dbl_ulp x))"

definition is_double :: "real \<Rightarrow> bool" where
  "is_double x = (\<bar>x\<bar> < 2 ^ 1024 \<and> of_int \<lfloor>x / dbl_ulp x\<rfloor> = x / dbl_ulp x)"

definition dbl_min_subnormal :: real where
  "dbl_min_subnormal = 1 / 2 ^ 1074"

text \<open>\<open>+\<close> and \<open>*\<close> with rounding, and \<open><=\<close>.\<close>

fun round_js :: "jsnum \<Rightarrow> jsnum" where
  "round_js (Fin x) =
     (let r = round_double x
      in if 2 ^ 1024 \<le> r then PInf else if r \<le> - (2 ^ 1024) then NInf else Fin r)"
| "round_js a = a"

definition fl_add :: "jsnum \<Rightarrow> jsnum \<Rightarrow> jsnum" where
  "fl_add a b = round_js (js_add a b)"

definition fl_mul :: "jsnum \<Rightarrow> jsnum \<Rightarrow> jsnum" where
  "fl_mul a b = round_js (js_mul a b)"

definition js_le :: "jsnum \<Rightarrow> jsnum \<Rightarrow> bool" where
  "js_le a b = (js_lt a b \<or> js_eq a b)"

subsection \<open>Affine chaos game (js/affine.js)\<close>

record affine_map =
  a11 :: jsnum
  a12 :: jsnum
  a21 :: jsnum
  a22 :: jsnum
  b1 :: jsnum
  b2 :: jsnum
  prob :: jsnum

type_synonym jspoint = "jsnum \<times> jsnum"

definition applyAffine :: "jspoint \<Rightarrow> affine_map \<Rightarrow> jspoint" where
  "applyAffine p matrix =
     (fl_add (fl_add (fl_mul (a11 matrix) (fst p)) (fl_mul (a12 matrix) (snd p))) (b1 matrix),
      fl_add (fl_add (fl_mul (a21 matrix) (fst p)) (fl_mul (a22 matrix) (snd p))) (b2 matrix))"

text \<open>
  \<open>chooseMap\<close> draws one random number \<open>r\<close> and walks the maps with a running sum; after
  the loop it returns the last map, which is \<open>undefined\<close> (\<open>None\<close>) for an empty list.
\<close>

fun chooseMap_loop :: "jsnum \<Rightarrow> jsnum \<Rightarrow> affine_map list \<Rightarrow> affine_map option" where
  "chooseMap_loop r acc [] = None"
| "chooseMap_loop r acc (m # ms) =
     (let acc' = fl_add acc (prob m) in if js_le r acc' then Some m else chooseMap_loop r acc' ms)"

definition chooseMap :: "affine_map list \<Rightarrow> jsnum \<Rightarrow> affine_map option" where
  "chooseMap maps r =
     (case chooseMap_loop r (Fin 0) maps of
        Some m \<Rightarrow> Some m
      | None \<Rightarrow> (if maps = [] then None else Some (maps ! (length maps - 1))))"

text \<open>
  \<open>generateAffineFractal\<close>: iteration \<open>i\<close> makes the \<open>i\<close>-th call of \<open>Math.random()\<close>.
  Applying \<open>applyAffine\<close> to \<open>undefined\<close> raises a TypeError, the result \<open>None\<close>.
\<close>

function generateAffine_loop ::
  "affine_map list \<Rightarrow> nat \<Rightarrow> (nat \<Rightarrow> real) \<Rightarrow> nat \<Rightarrow> jspoint \<Rightarrow> jspoint list \<Rightarrow> jspoint list option" where
  "generateAffine_loop maps n rnd i p points =
     (if i < n
      then (case chooseMap maps (Fin (rnd i)) of
              None \<Rightarrow> None
            | Some m \<Rightarrow> (let p' = applyAffine p m
                        in generateAffine_loop maps n rnd (i + 1) p' (points @ [p'])))
      else Some points)"
  by pat_completeness auto
termination
  by (relation "measure (\<lambda>(maps, n, rnd, i, p, points). n - i)") auto

declare generateAffine_loop.simps [simp del]

definition generateAffineFractal ::
  "affine_map list \<Rightarrow> nat \<Rightarrow> jsnum \<Rightarrow> jsnum \<Rightarrow> (nat \<Rightarrow> real) \<Rightarrow> jspoint list option" where
  "generateAffineFractal maps n x0 y0 rnd = generateAffine_loop maps n rnd 0 (x0, y0) []"

text \<open>The entry \<open>'Shrinking Square'\<close> of the table \<open>examples\<close>.\<close>

definition Shrinking_Square :: "affine_map list" where
  "Shrinking_Square =
     [\<lparr>a11 = Fin 0.5, a12 = Fin 0, a21 = Fin 0, a22 = Fin 0.5, b1 = Fin 0, b2 = Fin 0,
       prob = Fin 1\<rparr>]"

text \<open>
  The Euclidean norm of a point with finite coordinates, the point as a pair of Numbers,
  and the orbit of a point under repeated rounded halving.
\<close>

definition pnorm :: "real \<times> real \<Rightarrow> real" where
  "pnorm p = sqrt (fst p * fst p + snd p * snd p)"

definition fin_point :: "real \<times> real \<Rightarrow> jspoint" where
  "fin_point q = (Fin (fst q), Fin (snd q))"

fun dbl_halvings :: "nat \<Rightarrow> real \<times> real \<Rightarrow> (real \<times> real) list" where
  "dbl_halvings 0 p = []"
| "dbl_halvings (Suc k) p =
     (round_double (fst p / 2), round_double (snd p / 2))
       # dbl_halvings k (round_double (fst p / 2), round_double (snd p / 2))"

section \<open>Theorems\<close>

subsection \<open>Menger sponge\<close>

lemma menger_offsets_length: "length menger_offsets = 20"
  by (simp add: menger_offsets_def)

text \<open>
  C10. For every level (and any centre and size) \<open>generateMenger\<close> returns exactly
  \<open>20 ^ level\<close> points: each recursion step keeps 20 of the 27 subcubes, an offset being
  dropped exactly when two or more of its three components are zero.
\<close>

theorem generateMenger_length:
  "length (generateMenger level center sz) = 20 ^ level
   \<and> generateMenger (Suc level) center sz =
       concat (map (\<lambda>(dx, dy, dz). generateMenger level
          (fst center + dx * (sz / 3), fst (snd center) + dy * (sz / 3),
           snd (snd center) + dz * (sz / 3)) (sz / 3)) menger_offsets)
   \<and> length menger_offsets = 20
   \<and> length (filter (\<lambda>(dx, dy, dz). length (filter (\<lambda>v. v = 0) [dx, dy, dz]) \<ge> 2)
        (List.product [-1, 0, 1] (List.product [-1, 0, 1] [-1, 0, 1::real]))) = 7"
proof (intro conjI)
  show "length (generateMenger level center sz) = 20 ^ level"
  proof (induction level arbitrary: center sz)
    case 0
    show ?case by simp
  next
    case (Suc level)
    show ?case by (simp add: Suc.IH Let_def)
  qed
  show "generateMenger (Suc level) center sz =
       concat (map (\<lambda>(dx, dy, dz). generateMenger level
          (fst center + dx * (sz / 3), fst (snd center) + dy * (sz / 3),
           snd (snd center) + dz * (sz / 3)) (sz / 3)) menger_offsets)"
    by (simp add: menger_offsets_def Let_def)
  show "length menger_offsets = 20" by (rule menger_offsets_length)
  show "length (filter (\<lambda>(dx, dy, dz). length (filter (\<lambda>v. v = 0) [dx, dy, dz]) \<ge> 2)
        (List.product [-1, 0, 1] (List.product [-1, 0, 1] [-1, 0, 1::real]))) = 7"
    by simp
qed

subsection \<open>Escape time in the plane\<close>

lemma julia_loop_eq_drawFractal_loop:
  "julia_loop k mx z it = drawFractal_loop (re k) (im k) mx (re z) (im z) it"
proof (induction k mx z it rule: julia_loop.induct)
  case (1 juliaK mx z iteration)
  show ?case
  proof (cases "re z * re z + im z * im z \<le> 4 \<and> iteration < mx")
    case True
    then show ?thesis
      using "1.IH" [OF True refl refl]
      by (subst julia_loop.simps, subst drawFractal_loop.simps) (simp add: Let_def)
  next
    case False
    then show ?thesis
      by (subst julia_loop.simps, subst drawFractal_loop.simps) auto
  qed
qed

lemma mandelbrot_loop_eq_drawFractal_loop:
  "mandelbrot_loop cx cy mx x y it = drawFractal_loop cx cy mx x y it"
proof (induction cx cy mx x y it rule: mandelbrot_loop.induct)
  case (1 cx cy maxIter x y it)
  show ?case
  proof (cases "x * x + y * y \<le> 4 \<and> it < maxIter")
    case True
    then show ?thesis
      using "1.IH" [OF True refl refl]
      by (subst mandelbrot_loop.simps, subst drawFractal_loop.simps) (simp add: Let_def)
  next
    case False
    then show ?thesis
      by (subst mandelbrot_loop.simps, subst drawFractal_loop.simps) auto
  qed
qed

text \<open>
  C1. The Julia computation (start \<open>p\<close>, constant \<open>k\<close>) and the Mandelbrot computation
  (start \<open>0\<close>, constant \<open>p\<close>) are the same loop, the one of \<open>drawFractal\<close>, with the same
  step and the same bailout test; so for every budget the Julia computation with \<open>p\<close>
  put in the role of the constant and started at \<open>0\<close> returns what the Mandelbrot
  computation returns at \<open>p\<close>, both in the combined viewer and between the two
  stand-alone functions.
\<close>

theorem julia_mandelbrot_shared_core:
  "juliaEscape k maxIter \<lparr>re = fst p, im = snd p\<rparr> = drawFractal_iter Julia p (re k, im k) maxIter
   \<and> mandelbrotEscape (fst p) (snd p) maxIter = drawFractal_iter Mandelbrot p constantK maxIter
   \<and> drawFractal_iter Julia (0, 0) p maxIter = drawFractal_iter Mandelbrot p constantK maxIter
   \<and> juliaEscape \<lparr>re = fst p, im = snd p\<rparr> maxIter \<lparr>re = 0, im = 0\<rparr>
       = mandelbrotEscape (fst p) (snd p) maxIter"
  by (simp add: juliaEscape_def mandelbrotEscape_def drawFractal_iter_def
      julia_loop_eq_drawFractal_loop mandelbrot_loop_eq_drawFractal_loop split_beta)

lemma mandelbrot_loop_origin:
  "it \<le> maxIter \<Longrightarrow> mandelbrot_loop 0 0 maxIter 0 0 it = maxIter"
proof (induction "nat (maxIter - it)" arbitrary: it)
  case 0
  then show ?case by (subst mandelbrot_loop.simps) simp
next
  case (Suc n)
  from Suc.hyps(2) have lt: "it < maxIter" and n: "n = nat (maxIter - (it + 1))"
    by linarith+
  from Suc.hyps(1) [OF n] lt have "mandelbrot_loop 0 0 maxIter 0 0 (it + 1) = maxIter"
    by simp
  with lt show ?case by (subst mandelbrot_loop.simps) (simp add: Let_def)
qed

lemma mandelbrot_2_2: "mandelbrotEscape 2 2 maxIter = (if 0 < maxIter then 1 else 0)"
  unfolding mandelbrotEscape_def
  by (subst mandelbrot_loop.simps, subst mandelbrot_loop.simps) (simp add: Let_def)

text \<open>
  C2. For every budget \<open>maxIter \<ge> 0\<close> the Mandelbrot computation at \<open>(0, 0)\<close> returns
  \<open>maxIter\<close> (the point never escapes) and at \<open>(2, 2)\<close> it returns at most 2; the value
  there is 1 as soon as the budget allows one step.
\<close>

theorem mandelbrot_origin_and_2_2:
  "0 \<le> maxIter \<Longrightarrow>
     mandelbrotEscape 0 0 maxIter = maxIter
     \<and> mandelbrotEscape 2 2 maxIter \<le> 2
     \<and> mandelbrotEscape 2 2 maxIter = min 1 maxIter"
  by (simp add: mandelbrot_2_2) (simp add: mandelbrotEscape_def mandelbrot_loop_origin)

theorem mandelbrot_origin_and_2_2_witness:
  "(0::int) \<le> 50 \<and> mandelbrotEscape 0 0 50 = 50 \<and> mandelbrotEscape 2 2 50 \<le> 2
   \<and> mandelbrotEscape 2 2 50 = min 1 50"
  using mandelbrot_origin_and_2_2 [of 50] by simp

subsection \<open>L-system rewriting\<close>

lemma rewrite_pass_concat:
  "rewrite_pass rules next result = next @ concat (map (rewrite_char rules) result)"
  by (induction result arbitrary: "next") simp_all

lemma lsystem_loop_funpow:
  "lsystem_loop rules iterations i result =
     ((\<lambda>s. rewrite_pass rules [] s) ^^ nat (iterations - i)) result"
proof (induction "nat (iterations - i)" arbitrary: i result)
  case 0
  then show ?case by (subst lsystem_loop.simps) simp
next
  case (Suc n)
  from Suc.hyps(2) have lt: "i < iterations" and n: "n = nat (iterations - (i + 1))"
    by linarith+
  have "lsystem_loop rules iterations i result =
        lsystem_loop rules iterations (i + 1) (rewrite_pass rules [] result)"
    using lt by (subst lsystem_loop.simps) simp
  also have "\<dots> = ((\<lambda>s. rewrite_pass rules [] s) ^^ n) (rewrite_pass rules [] result)"
    using Suc.hyps(1) [OF n] n by simp
  finally show ?case using Suc.hyps(2) [symmetric] by (simp add: funpow_swap1)
qed

lemma count_list_concat:
  "count_list (concat xss) x = sum_list (map (\<lambda>xs. count_list xs x) xss)"
  by (induction xss) simp_all

lemma rewrite_pass_length:
  "length (rewrite_pass rules [] s) =
     (\<Sum>c\<in>set s. count_list s c * length (rewrite_char rules c))"
  by (simp add: rewrite_pass_concat length_concat comp_def sum_list_map_eq_sum_count)

lemma rewrite_pass_count:
  "count_list (rewrite_pass rules [] s) x =
     (\<Sum>c\<in>set s. count_list s c * count_list (rewrite_char rules c) x)"
proof -
  have "count_list (rewrite_pass rules [] s) x =
        sum_list (map (\<lambda>c. count_list (rewrite_char rules c) x) s)"
    by (simp add: rewrite_pass_concat count_list_concat comp_def)
  also have "\<dots> = (\<Sum>c\<in>set s. count_list s c * count_list (rewrite_char rules c) x)"
    by (rule sum_list_map_eq_sum_count)
  finally show ?thesis .
qed

lemma F_rule_example: "generateLSystemString ''F'' F_rule 2 = ''F+F+F+F''"
  unfolding generateLSystemString_def
  by (subst lsystem_loop.simps, subst lsystem_loop.simps, subst lsystem_loop.simps)
     (simp add: rewrite_char_def F_rule_def)

lemma F_count_step:
  "count_list (rewrite_pass F_rule [] s) (CHR ''F'') = 2 * count_list s (CHR ''F'')"
  unfolding rewrite_pass_concat
  by (induction s) (simp_all add: rewrite_char_def F_rule_def)

lemma F_count_funpow:
  "count_list ((rewrite_pass F_rule [] ^^ n) ''F'') (CHR ''F'') = 2 ^ n"
  by (induction n) (simp_all add: F_count_step)

lemma F_rule_one_iteration: "generateLSystemString ''F'' F_rule 1 = ''F+F''"
  unfolding generateLSystemString_def
  by (subst lsystem_loop.simps, subst lsystem_loop.simps)
     (simp add: rewrite_char_def F_rule_def)

text \<open>
  C8, as stated, fails in its own example: the symbol \<open>+\<close> has no rule, so its expansion
  factor is 1, yet its count goes from 1 to 3 in the second iteration; and the length
  goes from 3 to 7, not to the 9 that the factor 3 of \<open>F\<close> would give.
\<close>

theorem generateLSystemString_count_counterexample:
  "length (rewrite_char F_rule (CHR ''+'')) = 1
   \<and> count_list (generateLSystemString ''F'' F_rule 1) (CHR ''+'') = 1
   \<and> count_list (generateLSystemString ''F'' F_rule 2) (CHR ''+'') = 3
   \<and> count_list (generateLSystemString ''F'' F_rule 2) (CHR ''+'')
        \<noteq> length (rewrite_char F_rule (CHR ''+''))
            * count_list (generateLSystemString ''F'' F_rule 1) (CHR ''+'')
   \<and> length (rewrite_char F_rule (CHR ''F'')) = 3
   \<and> length (generateLSystemString ''F'' F_rule 1) = 3
   \<and> length (generateLSystemString ''F'' F_rule 2) = 7
   \<and> length (generateLSystemString ''F'' F_rule 2)
        \<noteq> length (rewrite_char F_rule (CHR ''F''))
            * length (generateLSystemString ''F'' F_rule 1)"
  by (simp add: F_rule_example F_rule_one_iteration) (simp add: rewrite_char_def F_rule_def)

text \<open>
  C8, amended. The rewrite replaces every symbol of the current string, all in one pass,
  and repeats the pass \<open>iterations\<close> times: a symbol with a non-empty rule is replaced
  by the string of its rule, a symbol without a rule (or with an empty one) is copied.
  Axiom \<open>F\<close> under \<open>F \<rightarrow> F+F\<close> gives \<open>F+F+F+F\<close> after 2 iterations, with 4 move symbols
  (and \<open>2 ^ n\<close> of them after \<open>n\<close>). In every pass the new length is the sum, over the
  symbols, of the symbol's count times the length of its replacement, and the new count
  of a symbol \<open>x\<close> is the sum of each symbol's count times the occurrences of \<open>x\<close> in its
  replacement.
\<close>

theorem generateLSystemString_rewrite:
  "generateLSystemString axiom rules iterations =
     ((\<lambda>s. concat (map (rewrite_char rules) s)) ^^ nat iterations) axiom
   \<and> rewrite_char (rules(c \<mapsto> x # xs)) c = x # xs
   \<and> rewrite_char (rules(c \<mapsto> [])) c = [c]
   \<and> rewrite_char (rules(c := None)) c = [c]
   \<and> generateLSystemString ''F'' F_rule 2 = ''F+F+F+F''
   \<and> count_list (generateLSystemString ''F'' F_rule 2) (CHR ''F'') = 4
   \<and> count_list (generateLSystemString ''F'' F_rule (int n)) (CHR ''F'') = 2 ^ n
   \<and> generateLSystemString ''X'' [CHR ''X'' \<mapsto> ''F-X''] 2 = ''F-F-X''
   \<and> length (rewrite_pass rules [] s) =
       (\<Sum>c\<in>set s. count_list s c * length (rewrite_char rules c))
   \<and> count_list (rewrite_pass rules [] s) y =
       (\<Sum>c\<in>set s. count_list s c * count_list (rewrite_char rules c) y)"
proof (intro conjI)
  show "generateLSystemString axiom rules iterations =
     ((\<lambda>s. concat (map (rewrite_char rules) s)) ^^ nat iterations) axiom"
    by (simp add: generateLSystemString_def lsystem_loop_funpow rewrite_pass_concat)
  show "rewrite_char (rules(c \<mapsto> x # xs)) c = x # xs"
    by (simp add: rewrite_char_def)
  show "rewrite_char (rules(c \<mapsto> [])) c = [c]"
    by (simp add: rewrite_char_def)
  show "rewrite_char (rules(c := None)) c = [c]"
    by (simp add: rewrite_char_def)
  show "generateLSystemString ''F'' F_rule 2 = ''F+F+F+F''"
    by (rule F_rule_example)
  show "count_list (generateLSystemString ''F'' F_rule 2) (CHR ''F'') = 4"
    by (simp add: F_rule_example)
  show "count_list (generateLSystemString ''F'' F_rule (int n)) (CHR ''F'') = 2 ^ n"
    by (simp add: generateLSystemString_def lsystem_loop_funpow F_count_funpow)
  show "generateLSystemString ''X'' [CHR ''X'' \<mapsto> ''F-X''] 2 = ''F-F-X''"
    unfolding generateLSystemString_def
    by (subst lsystem_loop.simps, subst lsystem_loop.simps, subst lsystem_loop.simps)
       (simp add: rewrite_char_def)
  show "length (rewrite_pass rules [] s) =
       (\<Sum>c\<in>set s. count_list s c * length (rewrite_char rules c))"
    by (rule rewrite_pass_length)
  show "count_list (rewrite_pass rules [] s) y =
       (\<Sum>c\<in>set s. count_list s c * count_list (rewrite_char rules c) y)"
    by (rule rewrite_pass_count)
qed

subsection \<open>Z-order curve\<close>

lemma generateZOrder_cells_1:
  "generateZOrder_cells 1 = [(0, 0), (0, 1), (1, 0), (1, 1)]"
  by (simp add: generateZOrder_cells_def zorder_loop.simps js_or_def js_and_def js_shl_def
      js_sar_def toInt32_def upt_rec Let_def)

text \<open>
  C5, as stated, fails: with even bits going to \<open>y\<close> and odd bits to \<open>x\<close>, index 1 is the
  cell \<open>(x, y) = (0, 1)\<close>, so the 2 x 2 grid is not visited as
  \<open>(0,0), (1,0), (0,1), (1,1)\<close>.
\<close>

theorem generateZOrder_order_counterexample:
  "generateZOrder_cells 1 \<noteq> [(0, 0), (1, 0), (0, 1), (1, 1)]"
  using generateZOrder_cells_1 by simp

text \<open>
  C5, amended. For depth 1 the Z-order enumerator visits the four cells, in ascending
  index order, as \<open>(x, y) = (0,0), (0,1), (1,0), (1,1)\<close>: bit 0 of the index (the even
  bit) is \<open>y\<close> and bit 1 (the odd bit) is \<open>x\<close>.
\<close>

theorem generateZOrder_depth_1:
  "generateZOrder_cells 1 = [(0, 0), (0, 1), (1, 0), (1, 1)]
   \<and> generateZOrder_cells 1 = map (\<lambda>i. (int i div 2 mod 2, int i mod 2)) [0, 1, 2, 3]"
  by (simp add: generateZOrder_cells_def zorder_loop.simps js_or_def js_and_def js_shl_def
      js_sar_def toInt32_def upt_rec Let_def)

subsection \<open>Hilbert curve, bit form\<close>

lemma sint_one_and: "sint ((1::32 word) AND w) = (if bit w 0 then 1 else 0)"
  by (simp add: and.commute [of 1] and_one_eq bit_0 mod_2_eq_odd)

lemma rx_bit: "js_and 1 (js_sar t 1) = t div 2 mod 2"
proof -
  have "bit (signed_drop_bit (Suc 0) (word_of_int t :: 32 word)) 0 = bit t 1"
    by (simp add: bit_signed_drop_bit_iff bit_word_of_int_iff)
  then show ?thesis
    by (simp add: js_and_def js_sar_def toInt32_def sint_one_and bit_iff_odd mod_2_eq_odd)
qed

lemma ry_bit: "js_and 1 (js_xor t r) = (t + r) mod 2"
proof -
  have "bit ((word_of_int t :: 32 word) XOR word_of_int r) 0 = (odd t \<noteq> odd r)"
    unfolding bit_xor_iff bit_word_of_int_iff by (simp add: bit_0)
  then show ?thesis
    by (simp add: js_and_def js_xor_def toInt32_def sint_one_and mod_2_eq_odd)
qed

lemma hilbert_loop_step:
  "s < N \<Longrightarrow> hilbert_loop N s t x y =
     hilbert_loop N (s * 2) (t div 4)
       (fst (rot s x y (t div 2 mod 2) ((t + t div 2 mod 2) mod 2)) + s * (t div 2 mod 2))
       (snd (rot s x y (t div 2 mod 2) ((t + t div 2 mod 2) mod 2)) + s * ((t + t div 2 mod 2) mod 2))"
  by (subst hilbert_loop.simps) (simp add: rx_bit ry_bit Let_def split_beta)

lemma hilbert_loop_exit: "\<not> s < N \<Longrightarrow> hilbert_loop N s t x y = Some (x, y)"
  by (subst hilbert_loop.simps) simp

lemma rot_range:
  "0 \<le> x \<Longrightarrow> x < s \<Longrightarrow> 0 \<le> y \<Longrightarrow> y < s \<Longrightarrow>
   0 \<le> fst (rot s x y rx ry) \<and> fst (rot s x y rx ry) < s \<and>
   0 \<le> snd (rot s x y rx ry) \<and> snd (rot s x y rx ry) < s"
  by (auto simp: rot_def)

lemma bit_cases: "(t::int) div 2 mod 2 = 0 \<or> t div 2 mod 2 = 1"
  by (simp add: mod2_eq_if)

lemma bit_cases': "((t::int) + r) mod 2 = 0 \<or> (t + r) mod 2 = 1"
  by (simp add: mod2_eq_if)

lemma step_range:
  assumes "0 \<le> x" "x < s" "0 \<le> y" "y < s"
  shows "0 \<le> fst (rot s x y rx ry) + s * (t div 2 mod 2)
    \<and> fst (rot s x y rx ry) + s * (t div 2 mod 2) < s * 2
    \<and> 0 \<le> snd (rot s x y rx ry) + s * ((t + r) mod 2)
    \<and> snd (rot s x y rx ry) + s * ((t + r) mod 2) < s * 2"
  using rot_range [OF assms, of rx ry] bit_cases [of t] bit_cases' [of t r] assms
  by auto

lemma hilbert_loop_range:
  "0 \<le> x \<Longrightarrow> x < 2 ^ j \<Longrightarrow> 0 \<le> y \<Longrightarrow> y < 2 ^ j \<Longrightarrow>
   \<exists>x' y'. hilbert_loop (2 ^ (j + k)) (2 ^ j) t x y = Some (x', y')
      \<and> 0 \<le> x' \<and> x' < 2 ^ (j + k) \<and> 0 \<le> y' \<and> y' < 2 ^ (j + k)"
proof (induction k arbitrary: j t x y)
  case 0
  then show ?case by (simp add: hilbert_loop_exit)
next
  case (Suc k)
  have "(1::int) < 2 ^ Suc k"
    by (rule one_less_power) simp_all
  then have "(2::int) ^ j * 1 < 2 ^ j * 2 ^ Suc k"
    by (intro mult_strict_left_mono) simp_all
  then have lt: "(2::int) ^ j < 2 ^ (j + Suc k)" by (simp add: power_add)
  let ?rx = "t div 2 mod 2"
  let ?ry = "(t + ?rx) mod 2"
  let ?X = "fst (rot (2 ^ j) x y ?rx ?ry) + 2 ^ j * ?rx"
  let ?Y = "snd (rot (2 ^ j) x y ?rx ?ry) + 2 ^ j * ?ry"
  have r: "0 \<le> ?X \<and> ?X < 2 ^ j * 2 \<and> 0 \<le> ?Y \<and> ?Y < 2 ^ j * 2"
    by (rule step_range [OF Suc.prems])
  have eq: "hilbert_loop (2 ^ (j + Suc k)) (2 ^ j) t x y =
            hilbert_loop (2 ^ (Suc j + k)) (2 ^ Suc j) (t div 4) ?X ?Y"
    using hilbert_loop_step [OF lt, of t x y] by (simp add: mult.commute)
  have "\<exists>x' y'. hilbert_loop (2 ^ (Suc j + k)) (2 ^ Suc j) (t div 4) ?X ?Y = Some (x', y')
      \<and> 0 \<le> x' \<and> x' < 2 ^ (Suc j + k) \<and> 0 \<le> y' \<and> y' < 2 ^ (Suc j + k)"
    by (rule Suc.IH) (use r in simp_all)
  then show ?case unfolding eq by simp
qed

lemma digit_split:
  fixes a s r :: int
  shows "0 \<le> a \<Longrightarrow> a < s \<Longrightarrow> 0 \<le> a' \<Longrightarrow> a' < s \<Longrightarrow> r = 0 \<or> r = 1 \<Longrightarrow> r' = 0 \<or> r' = 1 \<Longrightarrow>
     a + s * r = a' + s * r' \<Longrightarrow> r = r' \<and> a = a'"
  by (elim disjE) simp_all

lemma rot_inj: "rot s x y rx ry = rot s x' y' rx ry \<Longrightarrow> x = x' \<and> y = y'"
  by (auto simp: rot_def split: if_splits)

lemma base4_digits:
  fixes t :: int
  shows "t = 4 * (t div 4) + 2 * (t div 2 mod 2) + t mod 2"
proof -
  have "t div 4 = t div 2 div 2"
    using zdiv_zmult2_eq [of 2 t 2] by simp
  moreover have "t div 2 = 2 * (t div 2 div 2) + t div 2 mod 2" by simp
  moreover have "t = 2 * (t div 2) + t mod 2" by simp
  ultimately show ?thesis by linarith
qed

lemma digits_determine:
  fixes t t' :: int
  assumes q: "t div 4 = t' div 4" and r: "t div 2 mod 2 = t' div 2 mod 2"
    and "(t + t div 2 mod 2) mod 2 = (t' + t' div 2 mod 2) mod 2"
  shows "t = t'"
proof -
  from assms(3) have "(t + t div 2 mod 2) mod 2 = (t' + t div 2 mod 2) mod 2"
    by (simp only: r)
  then have "(t + t div 2 mod 2 - t div 2 mod 2) mod 2 = (t' + t div 2 mod 2 - t div 2 mod 2) mod 2"
    by (rule mod_diff_cong) (rule refl)
  then have m: "t mod 2 = t' mod 2" by (simp only: add_diff_cancel)
  have "t = 4 * (t div 4) + 2 * (t div 2 mod 2) + t mod 2" by (rule base4_digits)
  also have "\<dots> = 4 * (t' div 4) + 2 * (t' div 2 mod 2) + t' mod 2" by (simp only: q r m)
  also have "\<dots> = t'" by (rule base4_digits [symmetric])
  finally show ?thesis .
qed

lemma step_inj:
  assumes b: "0 \<le> x" "x < s" "0 \<le> y" "y < s"
    and b': "0 \<le> x'" "x' < s" "0 \<le> y'" "y' < s"
    and c: "rx = 0 \<or> rx = 1" "rx' = 0 \<or> rx' = 1" "ry = 0 \<or> ry = 1" "ry' = 0 \<or> ry' = 1"
    and ex: "fst (rot s x y rx ry) + s * rx = fst (rot s x' y' rx' ry') + s * rx'"
    and ey: "snd (rot s x y rx ry) + s * ry = snd (rot s x' y' rx' ry') + s * ry'"
  shows "rx = rx' \<and> ry = ry' \<and> x = x' \<and> y = y'"
proof -
  note R = rot_range [OF b, of rx ry] and R' = rot_range [OF b', of rx' ry']
  have X: "rx = rx' \<and> fst (rot s x y rx ry) = fst (rot s x' y' rx' ry')"
    by (rule digit_split [OF _ _ _ _ c(1,2) ex]) (use R R' in blast)+
  have Y: "ry = ry' \<and> snd (rot s x y rx ry) = snd (rot s x' y' rx' ry')"
    by (rule digit_split [OF _ _ _ _ c(3,4) ey]) (use R R' in blast)+
  from X Y have "rot s x y rx ry = rot s x' y' rx ry"
    by (auto simp add: prod_eq_iff)
  then have "x = x' \<and> y = y'" by (rule rot_inj)
  with X Y show ?thesis by simp
qed

lemma hilbert_loop_inj:
  "0 \<le> x \<Longrightarrow> x < 2 ^ j \<Longrightarrow> 0 \<le> y \<Longrightarrow> y < 2 ^ j \<Longrightarrow>
   0 \<le> x' \<Longrightarrow> x' < 2 ^ j \<Longrightarrow> 0 \<le> y' \<Longrightarrow> y' < 2 ^ j \<Longrightarrow>
   0 \<le> t \<Longrightarrow> t < 4 ^ k \<Longrightarrow> 0 \<le> t' \<Longrightarrow> t' < 4 ^ k \<Longrightarrow>
   hilbert_loop (2 ^ (j + k)) (2 ^ j) t x y = hilbert_loop (2 ^ (j + k)) (2 ^ j) t' x' y' \<Longrightarrow>
   t = t' \<and> x = x' \<and> y = y'"
proof (induction k arbitrary: j t t' x x' y y')
  case 0
  then show ?case by (simp add: hilbert_loop_exit)
next
  case (Suc k)
  have "(1::int) < 2 ^ Suc k"
    by (rule one_less_power) simp_all
  then have "(2::int) ^ j * 1 < 2 ^ j * 2 ^ Suc k"
    by (intro mult_strict_left_mono) simp_all
  then have lt: "(2::int) ^ j < 2 ^ (j + Suc k)" by (simp add: power_add)
  let ?rx = "t div 2 mod 2" and ?rx' = "t' div 2 mod 2"
  let ?ry = "(t + ?rx) mod 2" and ?ry' = "(t' + ?rx') mod 2"
  let ?X = "fst (rot (2 ^ j) x y ?rx ?ry) + 2 ^ j * ?rx"
  let ?Y = "snd (rot (2 ^ j) x y ?rx ?ry) + 2 ^ j * ?ry"
  let ?X' = "fst (rot (2 ^ j) x' y' ?rx' ?ry') + 2 ^ j * ?rx'"
  let ?Y' = "snd (rot (2 ^ j) x' y' ?rx' ?ry') + 2 ^ j * ?ry'"
  have r: "0 \<le> ?X \<and> ?X < 2 ^ j * 2 \<and> 0 \<le> ?Y \<and> ?Y < 2 ^ j * 2"
    by (rule step_range [OF Suc.prems(1-4)])
  have r': "0 \<le> ?X' \<and> ?X' < 2 ^ j * 2 \<and> 0 \<le> ?Y' \<and> ?Y' < 2 ^ j * 2"
    by (rule step_range [OF Suc.prems(5-8)])
  have eq: "hilbert_loop (2 ^ (j + Suc k)) (2 ^ j) t x y =
            hilbert_loop (2 ^ (Suc j + k)) (2 ^ Suc j) (t div 4) ?X ?Y"
    using hilbert_loop_step [OF lt, of t x y] by (simp add: mult.commute)
  have eq': "hilbert_loop (2 ^ (j + Suc k)) (2 ^ j) t' x' y' =
            hilbert_loop (2 ^ (Suc j + k)) (2 ^ Suc j) (t' div 4) ?X' ?Y'"
    using hilbert_loop_step [OF lt, of t' x' y'] by (simp add: mult.commute)
  have q: "0 \<le> t div 4" "t div 4 < 4 ^ k" "0 \<le> t' div 4" "t' div 4 < 4 ^ k"
    using Suc.prems(9-12) by simp_all
  have e: "hilbert_loop (2 ^ (Suc j + k)) (2 ^ Suc j) (t div 4) ?X ?Y =
           hilbert_loop (2 ^ (Suc j + k)) (2 ^ Suc j) (t' div 4) ?X' ?Y'"
    using Suc.prems(13) unfolding eq eq' .
  have p2: "(2::int) ^ Suc j = 2 ^ j * 2" by simp
  have "t div 4 = t' div 4 \<and> ?X = ?X' \<and> ?Y = ?Y'"
    apply (rule Suc.IH [OF _ _ _ _ _ _ _ _ q e])
    using r r' unfolding p2 by blast+
  then have d: "t div 4 = t' div 4" and "?X = ?X'" and "?Y = ?Y'"
    by blast+
  then have "?rx = ?rx' \<and> ?ry = ?ry' \<and> x = x' \<and> y = y'"
    by (intro step_inj [OF Suc.prems(1-8) bit_cases bit_cases bit_cases' bit_cases'])
  moreover from this have "t = t'"
    by (intro digits_determine [OF d]) blast+
  ultimately show ?case by blast
qed

lemma hilbert_d2xy_range:
  "0 \<le> d \<Longrightarrow> d < 2 ^ n * 2 ^ n \<Longrightarrow>
   \<exists>x y. hilbert_d2xy n d = Some (x, y) \<and> 0 \<le> x \<and> x < 2 ^ n \<and> 0 \<le> y \<and> y < 2 ^ n"
  using hilbert_loop_range [of 0 0 0 n d] by (simp add: hilbert_d2xy_def)

lemma four_power: "(2::int) ^ n * 2 ^ n = 4 ^ n"
  by (simp add: power_mult_distrib [symmetric])

lemma hilbert_d2xy_inj: "inj_on (hilbert_d2xy n) {0 ..< 2 ^ n * 2 ^ n}"
proof (rule inj_onI)
  fix d d' :: int
  assume "d \<in> {0 ..< 2 ^ n * 2 ^ n}" "d' \<in> {0 ..< 2 ^ n * 2 ^ n}"
    and "hilbert_d2xy n d = hilbert_d2xy n d'"
  then show "d = d'"
    using hilbert_loop_inj [of 0 0 0 0 0 d n d'] by (simp add: hilbert_d2xy_def four_power)
qed

lemma hilbert_d2xy_image:
  "hilbert_d2xy n ` {0 ..< 2 ^ n * 2 ^ n} = Some ` ({0 ..< 2 ^ n} \<times> {0 ..< 2 ^ n})"
proof (rule card_subset_eq)
  show "finite (Some ` ({0 ..< (2::int) ^ n} \<times> {0 ..< 2 ^ n :: int}))" by simp
  show "hilbert_d2xy n ` {0 ..< 2 ^ n * 2 ^ n} \<subseteq> Some ` ({0 ..< 2 ^ n} \<times> {0 ..< 2 ^ n})"
  proof
    fix c assume "c \<in> hilbert_d2xy n ` {0 ..< 2 ^ n * 2 ^ n}"
    then obtain d where d: "0 \<le> d" "d < 2 ^ n * 2 ^ n" and c: "c = hilbert_d2xy n d"
      by auto
    from hilbert_d2xy_range [OF d] c show "c \<in> Some ` ({0 ..< 2 ^ n} \<times> {0 ..< 2 ^ n})"
      by auto
  qed
  have "card (hilbert_d2xy n ` {0 ..< 2 ^ n * 2 ^ n}) = card {0 ..< (2::int) ^ n * 2 ^ n}"
    by (rule card_image) (rule hilbert_d2xy_inj)
  moreover have "card (Some ` ({0 ..< (2::int) ^ n} \<times> {0 ..< 2 ^ n :: int})) =
      card ({0 ..< (2::int) ^ n} \<times> {0 ..< 2 ^ n :: int})"
    by (rule card_image) simp
  ultimately show "card (hilbert_d2xy n ` {0 ..< 2 ^ n * 2 ^ n}) =
      card (Some ` ({0 ..< (2::int) ^ n} \<times> {0 ..< 2 ^ n :: int}))"
    by (simp add: card_cartesian_product nat_mult_distrib nat_power_eq)
qed

lemma generateHilbert_cells_distinct: "distinct (generateHilbert_cells n)"
proof -
  have "inj_on (\<lambda>d. hilbert_d2xy n (int d)) {0 ..< 2 ^ n * 2 ^ n}"
  proof (rule inj_onI)
    fix a b :: nat
    assume "a \<in> {0 ..< 2 ^ n * 2 ^ n}" "b \<in> {0 ..< 2 ^ n * 2 ^ n}"
      and e: "hilbert_d2xy n (int a) = hilbert_d2xy n (int b)"
    then have "int a < int (2 ^ n * 2 ^ n)" "int b < int (2 ^ n * 2 ^ n)"
      by (simp_all only: of_nat_less_iff atLeastLessThan_iff)
    then have "int a \<in> {0 ..< 2 ^ n * 2 ^ n}" "int b \<in> {0 ..< 2 ^ n * 2 ^ n}"
      by simp_all
    with hilbert_d2xy_inj [of n] e have "int a = int b" by (rule inj_onD)
    then show "a = b" by simp
  qed
  then show ?thesis by (simp add: generateHilbert_cells_def distinct_map)
qed

text \<open>
  C4. For every order \<open>n\<close>, with \<open>N = 2 ^ n\<close>, the bit-form decoder returns for each
  distance \<open>d\<close> in \<open>[0, N * N)\<close> a pair \<open>(x, y)\<close> with both components in \<open>[0, N)\<close>; it is
  injective on these distances and hence a bijection onto the \<open>N \<times> N\<close> grid, so the
  emitted cells are pairwise distinct.
\<close>

theorem hilbert_d2xy_bijection:
  "(\<forall>d \<in> {0 ..< 2 ^ n * 2 ^ n}.
      \<exists>x y. hilbert_d2xy n d = Some (x, y) \<and> 0 \<le> x \<and> x < 2 ^ n \<and> 0 \<le> y \<and> y < 2 ^ n)
   \<and> inj_on (hilbert_d2xy n) {0 ..< 2 ^ n * 2 ^ n}
   \<and> bij_betw (hilbert_d2xy n) {0 ..< 2 ^ n * 2 ^ n} (Some ` ({0 ..< 2 ^ n} \<times> {0 ..< 2 ^ n}))
   \<and> distinct (generateHilbert_cells n)
   \<and> length (generateHilbert_cells n) = 2 ^ n * 2 ^ n"
proof (intro conjI ballI)
  fix d :: int assume "d \<in> {0 ..< 2 ^ n * 2 ^ n}"
  then show "\<exists>x y. hilbert_d2xy n d = Some (x, y) \<and> 0 \<le> x \<and> x < 2 ^ n \<and> 0 \<le> y \<and> y < 2 ^ n"
    using hilbert_d2xy_range [of d n] by simp
next
  show "inj_on (hilbert_d2xy n) {0 ..< 2 ^ n * 2 ^ n}" by (rule hilbert_d2xy_inj)
  show "bij_betw (hilbert_d2xy n) {0 ..< 2 ^ n * 2 ^ n} (Some ` ({0 ..< 2 ^ n} \<times> {0 ..< 2 ^ n}))"
    unfolding bij_betw_def using hilbert_d2xy_inj hilbert_d2xy_image by blast
  show "distinct (generateHilbert_cells n)" by (rule generateHilbert_cells_distinct)
  show "length (generateHilbert_cells n) = 2 ^ n * 2 ^ n" by (simp add: generateHilbert_cells_def)
qed

lemma hilbert_d2xy_2_7: "hilbert_d2xy 2 7 = Some (1, 2)"
  by (simp add: hilbert_d2xy_def hilbert_loop.simps rot_def js_and_def js_sar_def js_xor_def
      toInt32_def Let_def)

theorem hilbert_d2xy_bijection_witness:
  "(7::int) \<in> {0 ..< 2 ^ 2 * 2 ^ 2}
   \<and> hilbert_d2xy 2 7 = Some (1, 2)
   \<and> (\<exists>x y. hilbert_d2xy 2 7 = Some (x, y) \<and> 0 \<le> x \<and> x < 2 ^ 2 \<and> 0 \<le> y \<and> y < 2 ^ 2)
   \<and> inj_on (hilbert_d2xy 2) {0 ..< 2 ^ 2 * 2 ^ 2}
   \<and> distinct (generateHilbert_cells 2)"
  using hilbert_d2xy_bijection [of 2] hilbert_d2xy_2_7 by simp

subsection \<open>Newton fractal\<close>

lemma newton_loop_degenerate:
  "it < maxIter \<Longrightarrow> newton_degenerate k z \<Longrightarrow>
   newton_loop k maxIter tol roots z it = (\<lparr>hit = False, idx = - 1, iter = maxIter\<rparr>, roots)"
  by (subst newton_loop.simps) (simp add: newton_degenerate_def Let_def)

lemma newton_loop_continue:
  "it < maxIter \<Longrightarrow> \<not> newton_degenerate k z \<Longrightarrow> \<not> js_lt (cAbs (newton_f z k)) tol \<Longrightarrow>
   newton_loop k maxIter tol roots z it = newton_loop k maxIter tol roots (newton_next k z) (it + 1)"
  by (subst newton_loop.simps) (simp add: newton_degenerate_def newton_next_def Let_def)

lemma newton_loop_orbit:
  "it + int n < maxIter \<Longrightarrow>
   (\<forall>j<n. \<not> newton_degenerate k ((newton_next k ^^ j) z)
        \<and> \<not> js_lt (cAbs (newton_f ((newton_next k ^^ j) z) k)) tol) \<Longrightarrow>
   newton_degenerate k ((newton_next k ^^ n) z) \<Longrightarrow>
   newton_loop k maxIter tol roots z it = (\<lparr>hit = False, idx = - 1, iter = maxIter\<rparr>, roots)"
proof (induction n arbitrary: z it)
  case 0
  then show ?case by (simp add: newton_loop_degenerate)
next
  case (Suc n)
  from Suc.prems(2) [rule_format, of 0]
  have z: "\<not> newton_degenerate k z" "\<not> js_lt (cAbs (newton_f z k)) tol" by simp_all
  have lt: "it < maxIter" using Suc.prems(1) by simp
  have "newton_loop k maxIter tol roots (newton_next k z) (it + 1) =
        (\<lparr>hit = False, idx = - 1, iter = maxIter\<rparr>, roots)"
  proof (rule Suc.IH)
    show "it + 1 + int n < maxIter" using Suc.prems(1) by simp
    show "\<forall>j<n. \<not> newton_degenerate k ((newton_next k ^^ j) (newton_next k z))
        \<and> \<not> js_lt (cAbs (newton_f ((newton_next k ^^ j) (newton_next k z)) k)) tol"
      using Suc.prems(2) [rule_format, of "Suc j" for j] by (simp add: funpow_swap1)
    show "newton_degenerate k ((newton_next k ^^ n) (newton_next k z))"
      using Suc.prems(3) by (simp add: funpow_swap1)
  qed
  then show ?case by (simp add: newton_loop_continue [OF lt z])
qed

lemma newton_loop_not_hit:
  "\<not> hit (fst (newton_loop k maxIter tol roots z it)) \<Longrightarrow>
   newton_loop k maxIter tol roots z it = (\<lparr>hit = False, idx = - 1, iter = maxIter\<rparr>, roots)"
proof (induction k maxIter tol roots z it rule: newton_loop.induct)
  case (1 k maxIter tol roots z it)
  show ?case
  proof (cases "it < maxIter")
    case False
    then show ?thesis by (subst newton_loop.simps) simp
  next
    case lt: True
    show ?thesis
    proof (cases "newton_degenerate k z")
      case True
      with lt show ?thesis by (rule newton_loop_degenerate)
    next
      case nd: False
      show ?thesis
      proof (cases "js_lt (cAbs (newton_f z k)) tol")
        case True
        with lt nd "1.prems" show ?thesis
          by (subst (asm) newton_loop.simps) (simp add: newton_degenerate_def Let_def split_beta)
      next
        case False
        from "1.IH" [OF lt refl refl refl _ refl refl False] nd "1.prems"
        show ?thesis
          by (simp add: newton_loop_continue [OF lt nd False] newton_degenerate_def newton_next_def)
      qed
    qed
  qed
qed

lemma ncplx_eta: "\<lparr>cr = cr z0, ci = ci z0\<rparr> = (z0 :: ncplx)"
  by (cases z0) simp

text \<open>
  C7. If the trajectory of \<open>z0\<close> reaches, at some iteration \<open>n\<close> below the budget and with
  no convergence detected in the iterations before it, a point where the magnitude of the
  derivative is zero or not finite, then \<open>newtonConverge\<close> returns the sentinel
  \<open>hit = false, idx = -1, iter = maxIter\<close> and leaves the registry of roots as it was.
\<close>

theorem newtonConverge_degenerate:
  "int n < maxIter \<Longrightarrow>
   (\<forall>j<n. \<not> newton_degenerate k ((newton_next k ^^ j) z0)
        \<and> \<not> js_lt (cAbs (newton_f ((newton_next k ^^ j) z0) k)) tol) \<Longrightarrow>
   newton_degenerate k ((newton_next k ^^ n) z0) \<Longrightarrow>
   newtonConverge z0 k maxIter tol roots = (\<lparr>hit = False, idx = - 1, iter = maxIter\<rparr>, roots)"
  using newton_loop_orbit [of 0 n maxIter k z0 tol roots]
  by (simp add: newtonConverge_def ncplx_eta)

lemma newton_f_at_minus_half: "newton_f \<lparr>cr = Fin (- (1 / 2)), ci = Fin 0\<rparr> \<lparr>cr = Fin (- 2), ci = Fin 0\<rparr>
    = \<lparr>cr = Fin (27 / 8), ci = Fin 0\<rparr>"
  by (simp add: newton_f_def cSub_def cAdd_def cCube_def cMul_def js_sub_def Let_def)

lemma derivF_at_minus_half: "derivF \<lparr>cr = Fin (- (1 / 2)), ci = Fin 0\<rparr> \<lparr>cr = Fin (- 2), ci = Fin 0\<rparr>
    = \<lparr>cr = Fin (- (9 / 4)), ci = Fin 0\<rparr>"
  by (simp add: derivF_def cAdd_def cScale_def cSqr_def cMul_def js_sub_def Let_def)

lemma newton_next_at_minus_half: "newton_next \<lparr>cr = Fin (- 2), ci = Fin 0\<rparr> \<lparr>cr = Fin (- (1 / 2)), ci = Fin 0\<rparr>
    = \<lparr>cr = Fin 1, ci = Fin 0\<rparr>"
  by (simp add: newton_next_def newton_f_at_minus_half derivF_at_minus_half cDiv_def cSub_def js_sub_def js_eq_def Let_def)

lemma derivF_at_one: "derivF \<lparr>cr = Fin 1, ci = Fin 0\<rparr> \<lparr>cr = Fin (- 2), ci = Fin 0\<rparr>
    = \<lparr>cr = Fin 0, ci = Fin 0\<rparr>"
  by (simp add: derivF_def cAdd_def cScale_def cSqr_def cMul_def js_sub_def Let_def)

lemma sqrt_above_tol: "\<not> sqrt (729 / 64) < 1 / 10 ^ 6"
proof -
  have "(1 / 10 ^ 6 :: real) \<le> sqrt (729 / 64)"
    by (rule real_le_rsqrt) (simp add: power2_eq_square)
  then show ?thesis by simp
qed

theorem newtonConverge_degenerate_witness:
  "newtonConverge \<lparr>cr = Fin (- (1 / 2)), ci = Fin 0\<rparr> \<lparr>cr = Fin (- 2), ci = Fin 0\<rparr> 50
      (Fin (1 / 10 ^ 6)) [] = (\<lparr>hit = False, idx = - 1, iter = 50\<rparr>, [])
   \<and> \<not> newton_degenerate \<lparr>cr = Fin (- 2), ci = Fin 0\<rparr> \<lparr>cr = Fin (- (1 / 2)), ci = Fin 0\<rparr>
   \<and> newton_degenerate \<lparr>cr = Fin (- 2), ci = Fin 0\<rparr>
       (newton_next \<lparr>cr = Fin (- 2), ci = Fin 0\<rparr> \<lparr>cr = Fin (- (1 / 2)), ci = Fin 0\<rparr>)"
proof -
  let ?k = "\<lparr>cr = Fin (- 2), ci = Fin 0\<rparr>" and ?z = "\<lparr>cr = Fin (- (1 / 2)), ci = Fin 0\<rparr>"
  have a: "\<not> newton_degenerate ?k ?z"
    by (simp add: newton_degenerate_def derivF_at_minus_half cAbs_def js_eq_def)
  have b: "\<not> js_lt (cAbs (newton_f ?z ?k)) (Fin (1 / 10 ^ 6))"
    using sqrt_above_tol by (simp add: newton_f_at_minus_half cAbs_def)
  have c: "newton_degenerate ?k (newton_next ?k ?z)"
    by (simp add: newton_degenerate_def newton_next_at_minus_half derivF_at_one cAbs_def js_eq_def)
  from newtonConverge_degenerate [of 1 50 ?k ?z "Fin (1 / 10 ^ 6)" "[]"] a b c
  show ?thesis by simp
qed

subsection \<open>Mandelbulb and Julia-3D\<close>

lemma js_mul_NaN [simp]: "js_mul a NaN = NaN"
  by (cases a) simp_all

lemma js_add_NaN [simp]: "js_add a NaN = NaN"
  by (cases a) simp_all

lemma js_div_NaN [simp]: "js_div a NaN = NaN"
  by (cases a) simp_all

lemma js_lt_NaN [simp]: "js_lt a NaN = False"
  by (cases a) simp_all

lemma radius_NaN:
  "zx = NaN \<or> zy = NaN \<or> zz = NaN \<Longrightarrow>
   js_sqrt (js_add (js_add (js_mul zx zx) (js_mul zy zy)) (js_mul zz zz)) = NaN"
  by auto

lemma escape3D_loop_NaN:
  "zx = NaN \<or> zy = NaN \<or> zz = NaN \<Longrightarrow>
   \<not> fst (escape3D_loop iterations pwr bailout (cx, cy, cz) n (zx, zy, zz))"
proof (induction "iterations - n" arbitrary: n zx zy zz)
  case 0
  then show ?case by (subst escape3D_loop.simps) simp
next
  case (Suc m)
  then have lt: "n < iterations" and m: "m = iterations - Suc n" by simp_all
  have r: "js_sqrt (js_add (js_add (js_mul zx zx) (js_mul zy zy)) (js_mul zz zz)) = NaN"
    using Suc.prems by (rule radius_NaN)
  show ?case
    by (subst escape3D_loop.simps) (simp add: lt r js_gt_def Let_def Suc.hyps(1) [OF m])
qed

lemma escape3D_loop_origin:
  "\<not> js_gt (Fin 0) bailout \<Longrightarrow>
   \<not> fst (escape3D_loop iterations pwr bailout (cx, cy, cz) 0 (Fin 0, Fin 0, Fin 0))"
proof (cases "0 < iterations")
  case False
  then show ?thesis by (subst escape3D_loop.simps) simp
next
  case True
  assume "\<not> js_gt (Fin 0) bailout"
  with True show ?thesis
    by (subst escape3D_loop.simps) (simp add: Let_def escape3D_loop_NaN)
qed

lemma escape3D_loop_all_NaN:
  "escape3D_loop iterations pwr bailout (cx, cy, cz) n (NaN, NaN, NaN) = (False, (NaN, NaN, NaN))"
proof (induction "iterations - n" arbitrary: n)
  case 0
  then show ?case by (subst escape3D_loop.simps) simp
next
  case (Suc m)
  then have lt: "n < iterations" and m: "m = iterations - Suc n" by simp_all
  show ?case
    by (subst escape3D_loop.simps) (simp add: lt js_gt_def Let_def Suc.hyps(1) [OF m])
qed

lemma escape3D_loop_origin_state:
  "\<not> js_gt (Fin 0) bailout \<Longrightarrow> 0 < iterations \<Longrightarrow>
   escape3D_loop iterations pwr bailout (cx, cy, cz) 0 (Fin 0, Fin 0, Fin 0) = (False, (NaN, NaN, NaN))"
  by (subst escape3D_loop.simps) (simp add: Let_def escape3D_loop_all_NaN)

lemma radius_Inf:
  "zx \<noteq> NaN \<Longrightarrow> zy \<noteq> NaN \<Longrightarrow> zz \<noteq> NaN \<Longrightarrow>
   \<not> js_isFinite zx \<or> \<not> js_isFinite zy \<or> \<not> js_isFinite zz \<Longrightarrow>
   js_sqrt (js_add (js_add (js_mul zx zx) (js_mul zy zy)) (js_mul zz zz)) = PInf"
  by (cases zx; cases zy; cases zz) simp_all

lemma escape3D_loop_Inf:
  "n < iterations \<Longrightarrow> zx \<noteq> NaN \<Longrightarrow> zy \<noteq> NaN \<Longrightarrow> zz \<noteq> NaN \<Longrightarrow>
   \<not> js_isFinite zx \<or> \<not> js_isFinite zy \<or> \<not> js_isFinite zz \<Longrightarrow>
   fst (escape3D_loop iterations pwr (Fin b) (cx, cy, cz) n (zx, zy, zz))"
  by (subst escape3D_loop.simps) (simp add: radius_Inf js_gt_def)

lemma random_seed_half: "random_seed (\<lambda>_. 1 / 2) i = (Fin 0, Fin 0, Fin 0)"
  by (simp add: random_seed_def)

lemma escape3D_loop_bailout:
  "n < iterations \<Longrightarrow> js_gt (escape3D_radius v) bailout \<Longrightarrow>
   escape3D_loop iterations pwr bailout c n v = (True, v)"
  by (cases c, cases v) (simp add: escape3D_loop.simps [of iterations] escape3D_radius_def)

lemma escape3D_loop_continue:
  "n < iterations \<Longrightarrow> \<not> js_gt (escape3D_radius v) bailout \<Longrightarrow>
   escape3D_loop iterations pwr bailout c n v =
   escape3D_loop iterations pwr bailout c (n + 1) (escape3D_step pwr c v)"
  by (cases c, cases v)
     (simp add: escape3D_loop.simps [of iterations _ _ _ _ _ n] escape3D_radius_def
        escape3D_step_def Let_def)

lemma escape3D_loop_end:
  "\<not> n < iterations \<Longrightarrow> escape3D_loop iterations pwr bailout c n v = (False, v)"
  by (cases c, cases v) (simp add: escape3D_loop.simps [of iterations])

lemma escape3D_loop_orbit:
  "(\<forall>j<k. \<not> js_gt (escape3D_radius ((escape3D_step pwr c ^^ j) v)) bailout) \<Longrightarrow>
   n + k \<le> iterations \<Longrightarrow>
   escape3D_loop iterations pwr bailout c n v =
   escape3D_loop iterations pwr bailout c (n + k) ((escape3D_step pwr c ^^ k) v)"
proof (induction k arbitrary: n v)
  case 0
  then show ?case by simp
next
  case (Suc k)
  from Suc.prems(1) [rule_format, of 0] have a: "\<not> js_gt (escape3D_radius v) bailout" by simp
  from Suc.prems(2) have lt: "n < iterations" by simp
  have "escape3D_loop iterations pwr bailout c (n + 1) (escape3D_step pwr c v) =
        escape3D_loop iterations pwr bailout c (n + 1 + k)
          ((escape3D_step pwr c ^^ k) (escape3D_step pwr c v))"
  proof (rule Suc.IH)
    show "\<forall>j<k. \<not> js_gt (escape3D_radius ((escape3D_step pwr c ^^ j) (escape3D_step pwr c v))) bailout"
      using Suc.prems(1) [rule_format, of "Suc j" for j] by (simp add: funpow_swap1)
    show "n + 1 + k \<le> iterations" using Suc.prems(2) by simp
  qed
  then show ?case
    by (simp add: escape3D_loop_continue [OF lt a] funpow_swap1)
qed

lemma escape3D_loop_no_bailout:
  "(\<forall>j<k. \<not> js_gt (escape3D_radius ((escape3D_step pwr c ^^ j) v)) bailout) \<Longrightarrow>
   iterations \<le> k \<Longrightarrow> \<not> fst (escape3D_loop iterations pwr bailout c 0 v)"
  using escape3D_loop_orbit [of iterations pwr c v bailout 0 iterations]
  by (simp add: escape3D_loop_end)

lemma escape3D_orbit_NaN:
  assumes "\<forall>j<k. \<not> js_gt (escape3D_radius ((escape3D_step pwr c ^^ j) v)) bailout"
    and "vec_has_NaN ((escape3D_step pwr c ^^ k) v)"
  shows "\<not> fst (escape3D_loop iterations pwr bailout c 0 v)"
proof (cases "k \<le> iterations")
  case False
  with assms(1) show ?thesis by (intro escape3D_loop_no_bailout [of k]) simp_all
next
  case True
  obtain cx cy cz where c: "c = (cx, cy, cz)" by (cases c)
  obtain zx zy zz where z: "(escape3D_step pwr c ^^ k) v = (zx, zy, zz)"
    by (cases "(escape3D_step pwr c ^^ k) v")
  from assms(2) z have "zx = NaN \<or> zy = NaN \<or> zz = NaN" by (simp add: vec_has_NaN_def)
  then have "\<not> fst (escape3D_loop iterations pwr bailout (cx, cy, cz) k (zx, zy, zz))"
    by (rule escape3D_loop_NaN)
  with escape3D_loop_orbit [OF assms(1), of 0 iterations] True c z show ?thesis by simp
qed

lemma escape3D_orbit_Inf:
  assumes "\<forall>j<k. \<not> js_gt (escape3D_radius ((escape3D_step pwr c ^^ j) v)) (Fin b)"
    and "k < iterations"
    and "vec_infinite ((escape3D_step pwr c ^^ k) v)"
  shows "fst (escape3D_loop iterations pwr (Fin b) c 0 v)"
proof -
  obtain cx cy cz where c: "c = (cx, cy, cz)" by (cases c)
  obtain zx zy zz where z: "(escape3D_step pwr c ^^ k) v = (zx, zy, zz)"
    by (cases "(escape3D_step pwr c ^^ k) v")
  from assms(3) z have "zx \<noteq> NaN" "zy \<noteq> NaN" "zz \<noteq> NaN"
    "\<not> js_isFinite zx \<or> \<not> js_isFinite zy \<or> \<not> js_isFinite zz"
    by (simp_all add: vec_infinite_def)
  from escape3D_loop_Inf [OF assms(2) this]
  have "fst (escape3D_loop iterations pwr (Fin b) (cx, cy, cz) k (zx, zy, zz))" .
  with escape3D_loop_orbit [OF assms(1), of 0 iterations] assms(2) c z show ?thesis by simp
qed

lemma generateMandelbulb_filter:
  "generateMandelbulb iterations pwr bailout density rnd =
   filter (\<lambda>s. \<not> fst (escape3D_loop iterations pwr bailout s 0 s))
     (map (random_seed rnd) [0 ..< density])"
  unfolding generateMandelbulb_def
  by (induction density) (simp_all add: Let_def split_beta)

lemma generateJulia3D_filter:
  "generateJulia3D iterations pwr bailout density c rnd =
   map (\<lambda>s. snd (escape3D_loop iterations pwr bailout c 0 s))
     (filter (\<lambda>s. \<not> fst (escape3D_loop iterations pwr bailout c 0 s))
        (map (random_seed rnd) [0 ..< density]))"
  unfolding generateJulia3D_def
  by (induction density) (simp_all add: Let_def split_beta)

text \<open>
  C6, amended. Non-finite intermediate values never stop the 3D loops (they are total),
  and a seed is pushed exactly when its loop ends with \<open>escaped\<close> false. Whatever led
  to it, a loop state with a NaN coordinate ends with \<open>escaped\<close> false, and a loop state
  before the last iteration with an infinite coordinate and no NaN ends with \<open>escaped\<close>
  true for a finite bailout. A trajectory
  that reaches, before the last iteration and without having bailed out, a point with an
  infinite coordinate and no NaN has an infinite radius there, which exceeds every
  finite bailout: the seed is classified as escaped and is left out. A trajectory that
  reaches a point with a NaN coordinate without having bailed out never bails out, since
  \<open>r > bailout\<close> is false for NaN: the seed is not classified as escaped and is retained.
  The seed \<open>(0, 0, 0)\<close> is one, through \<open>acos(0 / 0)\<close>, for every bailout that is not
  negative: the Mandelbulb keeps the seed, Julia-3D its NaN end point.
\<close>

theorem escape3D_nonfinite:
  "generateMandelbulb iterations pwr bailout density rnd =
     filter (\<lambda>s. \<not> fst (escape3D_loop iterations pwr bailout s 0 s))
       (map (random_seed rnd) [0 ..< density])
   \<and> generateJulia3D iterations pwr bailout density c rnd =
     map (\<lambda>s. snd (escape3D_loop iterations pwr bailout c 0 s))
       (filter (\<lambda>s. \<not> fst (escape3D_loop iterations pwr bailout c 0 s))
          (map (random_seed rnd) [0 ..< density]))
   \<and> ((\<forall>j<k. \<not> js_gt (escape3D_radius ((escape3D_step pwr c ^^ j) v)) bailout)
        \<and> vec_has_NaN ((escape3D_step pwr c ^^ k) v) \<longrightarrow>
      \<not> fst (escape3D_loop iterations pwr bailout c 0 v))
   \<and> ((\<forall>j<k. \<not> js_gt (escape3D_radius ((escape3D_step pwr c ^^ j) v)) (Fin b))
        \<and> k < iterations \<and> vec_infinite ((escape3D_step pwr c ^^ k) v) \<longrightarrow>
      fst (escape3D_loop iterations pwr (Fin b) c 0 v))
   \<and> (\<not> js_gt (Fin 0) bailout \<and> i < density \<and> random_seed rnd i = (Fin 0, Fin 0, Fin 0) \<longrightarrow>
      (Fin 0, Fin 0, Fin 0) \<in> set (generateMandelbulb iterations pwr bailout density rnd))
   \<and> (\<not> js_gt (Fin 0) bailout \<and> 0 < iterations \<and> i < density
        \<and> random_seed rnd i = (Fin 0, Fin 0, Fin 0) \<longrightarrow>
      (NaN, NaN, NaN) \<in> set (generateJulia3D iterations pwr bailout density c rnd))
   \<and> (fst (escape3D_loop iterations pwr bailout s 0 s) \<longrightarrow>
      s \<notin> set (generateMandelbulb iterations pwr bailout density rnd))
   \<and> ((\<forall>m<density. fst (escape3D_loop iterations pwr bailout c 0 (random_seed rnd m))) \<longrightarrow>
      generateJulia3D iterations pwr bailout density c rnd = [])
   \<and> (zx = NaN \<or> zy = NaN \<or> zz = NaN \<longrightarrow>
      \<not> fst (escape3D_loop iterations pwr bailout (cx, cy, cz) n (zx, zy, zz)))
   \<and> (n < iterations \<and> vec_infinite (zx, zy, zz) \<longrightarrow>
      fst (escape3D_loop iterations pwr (Fin b) (cx, cy, cz) n (zx, zy, zz)))"
proof (intro conjI impI)
  show "generateMandelbulb iterations pwr bailout density rnd =
     filter (\<lambda>s. \<not> fst (escape3D_loop iterations pwr bailout s 0 s))
       (map (random_seed rnd) [0 ..< density])"
    by (rule generateMandelbulb_filter)
  show "generateJulia3D iterations pwr bailout density c rnd =
     map (\<lambda>s. snd (escape3D_loop iterations pwr bailout c 0 s))
       (filter (\<lambda>s. \<not> fst (escape3D_loop iterations pwr bailout c 0 s))
          (map (random_seed rnd) [0 ..< density]))"
    by (rule generateJulia3D_filter)
next
  assume "(\<forall>j<k. \<not> js_gt (escape3D_radius ((escape3D_step pwr c ^^ j) v)) bailout)
        \<and> vec_has_NaN ((escape3D_step pwr c ^^ k) v)"
  then show "\<not> fst (escape3D_loop iterations pwr bailout c 0 v)"
    using escape3D_orbit_NaN [of k pwr c v bailout iterations] by blast
next
  assume "(\<forall>j<k. \<not> js_gt (escape3D_radius ((escape3D_step pwr c ^^ j) v)) (Fin b))
        \<and> k < iterations \<and> vec_infinite ((escape3D_step pwr c ^^ k) v)"
  then show "fst (escape3D_loop iterations pwr (Fin b) c 0 v)"
    using escape3D_orbit_Inf [of k pwr c v b iterations] by blast
next
  assume a: "\<not> js_gt (Fin 0) bailout \<and> i < density \<and> random_seed rnd i = (Fin 0, Fin 0, Fin 0)"
  then have "\<not> fst (escape3D_loop iterations pwr bailout (Fin 0, Fin 0, Fin 0) 0 (Fin 0, Fin 0, Fin 0))"
    by (simp add: escape3D_loop_origin)
  moreover from a have "(Fin 0, Fin 0, Fin 0) \<in> random_seed rnd ` {0 ..< density}"
    by (metis atLeastLessThan_iff imageI zero_le)
  ultimately show "(Fin 0, Fin 0, Fin 0) \<in> set (generateMandelbulb iterations pwr bailout density rnd)"
    by (simp add: generateMandelbulb_filter)
next
  assume a: "\<not> js_gt (Fin 0) bailout \<and> 0 < iterations \<and> i < density
        \<and> random_seed rnd i = (Fin 0, Fin 0, Fin 0)"
  obtain cx cy cz where c: "c = (cx, cy, cz)" by (cases c)
  from a have e: "escape3D_loop iterations pwr bailout c 0 (Fin 0, Fin 0, Fin 0)
      = (False, (NaN, NaN, NaN))"
    unfolding c by (intro escape3D_loop_origin_state) simp_all
  from a have "(Fin 0, Fin 0, Fin 0) \<in> random_seed rnd ` {0 ..< density}"
    by (metis atLeastLessThan_iff imageI zero_le)
  with e show "(NaN, NaN, NaN) \<in> set (generateJulia3D iterations pwr bailout density c rnd)"
    by (force simp: generateJulia3D_filter)
next
  assume "fst (escape3D_loop iterations pwr bailout s 0 s)"
  then show "s \<notin> set (generateMandelbulb iterations pwr bailout density rnd)"
    by (simp add: generateMandelbulb_filter)
next
  assume "\<forall>m<density. fst (escape3D_loop iterations pwr bailout c 0 (random_seed rnd m))"
  then show "generateJulia3D iterations pwr bailout density c rnd = []"
    by (simp add: generateJulia3D_filter filter_empty_conv)
next
  assume "zx = NaN \<or> zy = NaN \<or> zz = NaN"
  then show "\<not> fst (escape3D_loop iterations pwr bailout (cx, cy, cz) n (zx, zy, zz))"
    by (rule escape3D_loop_NaN)
next
  assume "n < iterations \<and> vec_infinite (zx, zy, zz)"
  then show "fst (escape3D_loop iterations pwr (Fin b) (cx, cy, cz) n (zx, zy, zz))"
    by (intro escape3D_loop_Inf) (simp_all add: vec_infinite_def)
qed

lemma julia3D_example_seed: "random_seed julia3D_example_rnd 0 = (Fin 0, Fin 0, Fin 1)"
  by (simp add: random_seed_def julia3D_example_rnd_def)

lemma julia3D_example_radius: "escape3D_radius (Fin 0, Fin 0, Fin 1) = Fin 1"
  by (simp add: escape3D_radius_def)

lemma julia3D_example_step:
  "escape3D_step (Fin 8) (PInf, Fin 0, Fin 0) (Fin 0, Fin 0, Fin 1) = (PInf, Fin 0, Fin 1)"
  by (simp add: escape3D_step_def julia3D_example_radius atan2_real_def Let_def)

theorem escape3D_nonfinite_witness:
  "escape3D_step (Fin 8) (PInf, Fin 0, Fin 0) (Fin 0, Fin 0, Fin 1) = (PInf, Fin 0, Fin 1)
   \<and> \<not> js_gt (escape3D_radius (Fin 0, Fin 0, Fin 1)) (Fin 2)
   \<and> vec_infinite (PInf, Fin 0, Fin 1)
   \<and> fst (escape3D_loop 15 (Fin 8) (Fin 2) (PInf, Fin 0, Fin 0) 0 (Fin 0, Fin 0, Fin 1))
   \<and> generateJulia3D 15 (Fin 8) (Fin 2) 1 (PInf, Fin 0, Fin 0) julia3D_example_rnd = []
   \<and> vec_has_NaN (escape3D_step (Fin 8) (Fin 0, Fin 0, Fin 0) (Fin 0, Fin 0, Fin 0))
   \<and> \<not> fst (escape3D_loop 15 (Fin 8) (Fin 2) (Fin 0, Fin 0, Fin 0) 0 (Fin 0, Fin 0, Fin 0))
   \<and> (Fin 0, Fin 0, Fin 0) \<in> set (generateMandelbulb 15 (Fin 8) (Fin 2) 1 (\<lambda>_. 1 / 2))"
proof -
  note t = escape3D_nonfinite [where iterations = 15 and pwr = "Fin 8" and bailout = "Fin 2"
      and b = 2 and density = 1 and i = 0 and k = 1]
  have r: "\<not> js_gt (escape3D_radius (Fin 0, Fin 0, Fin 1)) (Fin 2)"
    by (simp add: julia3D_example_radius js_gt_def)
  have inf: "vec_infinite (PInf, Fin 0, Fin 1)" by (simp add: vec_infinite_def)
  have esc: "fst (escape3D_loop 15 (Fin 8) (Fin 2) (PInf, Fin 0, Fin 0) 0 (Fin 0, Fin 0, Fin 1))"
    using t [where c = "(PInf, Fin 0, Fin 0)" and v = "(Fin 0, Fin 0, Fin 1)"
        and rnd = julia3D_example_rnd and s = "(Fin 0, Fin 0, Fin 0)"] r inf
    by (simp add: julia3D_example_step)
  have emp: "generateJulia3D 15 (Fin 8) (Fin 2) 1 (PInf, Fin 0, Fin 0) julia3D_example_rnd = []"
    using t [where c = "(PInf, Fin 0, Fin 0)" and v = "(Fin 0, Fin 0, Fin 1)"
        and rnd = julia3D_example_rnd and s = "(Fin 0, Fin 0, Fin 0)"] esc
    by (simp add: julia3D_example_seed)
  have nan: "vec_has_NaN (escape3D_step (Fin 8) (Fin 0, Fin 0, Fin 0) (Fin 0, Fin 0, Fin 0))"
    by (simp add: escape3D_step_def escape3D_radius_def vec_has_NaN_def Let_def)
  have r0: "\<not> js_gt (escape3D_radius (Fin 0, Fin 0, Fin 0)) (Fin 2)"
    by (simp add: escape3D_radius_def js_gt_def)
  have ret: "\<not> fst (escape3D_loop 15 (Fin 8) (Fin 2) (Fin 0, Fin 0, Fin 0) 0 (Fin 0, Fin 0, Fin 0))
     \<and> (Fin 0, Fin 0, Fin 0) \<in> set (generateMandelbulb 15 (Fin 8) (Fin 2) 1 (\<lambda>_. 1 / 2))"
    using t [where c = "(Fin 0, Fin 0, Fin 0)" and v = "(Fin 0, Fin 0, Fin 0)"
        and rnd = "\<lambda>_. 1 / 2" and s = "(Fin 0, Fin 0, Fin 0)"] nan r0
    by (simp add: random_seed_half js_gt_def)
  from r inf esc emp nan ret show ?thesis by (simp add: julia3D_example_step)
qed

text \<open>
  C6, as stated, fails: the trajectory of the seed \<open>(0, 0, 0)\<close> is NaN after one step,
  yet the seed is not classified as escaped; the Mandelbulb keeps it and Julia-3D keeps
  its NaN end point.
\<close>

theorem escape3D_NaN_retained_counterexample:
  "escape3D_loop 1 (Fin 8) (Fin 2) (Fin 0, Fin 0, Fin 0) 0 (Fin 0, Fin 0, Fin 0)
      = (False, (NaN, NaN, NaN))
   \<and> generateMandelbulb 15 (Fin 8) (Fin 2) 1 (\<lambda>_. 1 / 2) = [(Fin 0, Fin 0, Fin 0)]
   \<and> generateJulia3D 15 (Fin 8) (Fin 2) 1 (Fin 0.355, Fin 0.355, Fin 0.355) (\<lambda>_. 1 / 2)
      = [(NaN, NaN, NaN)]"
  by (simp add: generateMandelbulb_def generateJulia3D_def random_seed_half escape3D_loop_origin_state
      js_gt_def)

subsection \<open>Constrained chaos game\<close>

lemma retry_loop_reject:
  "guard < 20 \<Longrightarrow> rejected targets cons p lastIndex (random_index (rnd ctr) (length targets)) \<Longrightarrow>
   retry_loop targets cons rnd p lastIndex guard ctr ix =
   retry_loop targets cons rnd p lastIndex (guard + 1) (ctr + 1)
     (Some (random_index (rnd ctr) (length targets)))"
  by (subst retry_loop.simps) (auto simp: rejected_def Let_def)

lemma retry_loop_accept:
  "guard < 20 \<Longrightarrow> \<not> rejected targets cons p lastIndex (random_index (rnd ctr) (length targets)) \<Longrightarrow>
   retry_loop targets cons rnd p lastIndex guard ctr ix =
     (Some (random_index (rnd ctr) (length targets)), ctr + 1, True)"
  by (subst retry_loop.simps) (auto simp: rejected_def Let_def)

lemma retry_loop_exit:
  "\<not> guard < 20 \<Longrightarrow> retry_loop targets cons rnd p lastIndex guard ctr ix = (ix, ctr, False)"
  by (subst retry_loop.simps) simp

lemma retry_loop_spec:
  "guard < 20 \<Longrightarrow>
   \<exists>k. guard + k < 20
     \<and> (\<forall>j<k. rejected targets cons p lastIndex (random_index (rnd (ctr + j)) (length targets)))
     \<and> retry_loop targets cons rnd p lastIndex guard ctr ix =
         (Some (random_index (rnd (ctr + k)) (length targets)), ctr + k + 1,
          \<not> rejected targets cons p lastIndex (random_index (rnd (ctr + k)) (length targets)))
     \<and> (rejected targets cons p lastIndex (random_index (rnd (ctr + k)) (length targets))
          \<longrightarrow> guard + k = 19)"
proof (induction "20 - guard" arbitrary: guard ctr ix)
  case 0
  then show ?case by simp
next
  case (Suc m)
  let ?d = "\<lambda>c. random_index (rnd c) (length targets)"
  show ?case
  proof (cases "rejected targets cons p lastIndex (?d ctr)")
    case False
    with Suc.prems show ?thesis
      by (intro exI [of _ 0]) (simp add: retry_loop_accept)
  next
    case rej: True
    show ?thesis
    proof (cases "guard + 1 < 20")
      case False
      with Suc.prems have g: "guard = 19" by simp
      with rej show ?thesis
        by (intro exI [of _ 0]) (simp add: retry_loop_reject retry_loop_exit)
    next
      case True
      from Suc.hyps(2) have m: "m = 20 - (guard + 1)" by simp
      from Suc.hyps(1) [OF m True, of "ctr + 1" "Some (?d ctr)"]
      obtain k where k: "guard + 1 + k < 20"
        "\<forall>j<k. rejected targets cons p lastIndex (?d (ctr + 1 + j))"
        "retry_loop targets cons rnd p lastIndex (guard + 1) (ctr + 1) (Some (?d ctr)) =
           (Some (?d (ctr + 1 + k)), ctr + 1 + k + 1,
            \<not> rejected targets cons p lastIndex (?d (ctr + 1 + k)))"
        "rejected targets cons p lastIndex (?d (ctr + 1 + k)) \<longrightarrow> guard + 1 + k = 19"
        by blast
      have all: "\<forall>j<Suc k. rejected targets cons p lastIndex (?d (ctr + j))"
      proof (intro allI impI)
        fix j assume "j < Suc k"
        show "rejected targets cons p lastIndex (?d (ctr + j))"
        proof (cases j)
          case 0
          with rej show ?thesis by simp
        next
          case (Suc j')
          with \<open>j < Suc k\<close> k(2) [rule_format, of j'] show ?thesis by simp
        qed
      qed
      show ?thesis
        using k all Suc.prems rej
        by (intro exI [of _ "Suc k"]) (simp add: retry_loop_reject)
    qed
  qed
qed

lemma chaos_loop_trace:
  "\<exists>pts' tr'. chaos_loop targets lambda iters cons rnd i p lastIndex ctr pts trace
        = (pts @ pts', trace @ tr')
      \<and> length pts' = iters - i \<and> length tr' = iters - i
      \<and> (noRepeat cons \<longrightarrow> trace_ok lastIndex tr')
      \<and> (\<forall>e \<in> set tr'. \<exists>c. fst e = random_index (rnd c) (length targets))"
proof (induction "iters - i" arbitrary: i p lastIndex ctr pts trace)
  case 0
  then show ?case by (subst chaos_loop.simps) simp
next
  case (Suc m)
  then have lt: "i < iters" and m: "m = iters - (i + 1)" and s: "iters - i = Suc m"
    by simp_all
  from retry_loop_spec [of 0 targets cons p lastIndex rnd ctr None]
  obtain d ctr' c where r: "retry_loop targets cons rnd p lastIndex 0 ctr None =
      (Some d, ctr', \<not> rejected targets cons p lastIndex d)"
    and d: "d = random_index (rnd c) (length targets)"
    by auto
  let ?p = "add3 (scale3 p (1 - lambda)) (scale3 (targets ! nat d) lambda)"
  let ?a = "\<not> rejected targets cons p lastIndex d"
  from Suc.hyps(1) [OF m, of ?p d ctr' "pts @ [?p]" "trace @ [(d, ?a)]"]
  obtain pts' tr' where IH:
    "chaos_loop targets lambda iters cons rnd (i + 1) ?p d ctr' (pts @ [?p]) (trace @ [(d, ?a)])
       = ((pts @ [?p]) @ pts', (trace @ [(d, ?a)]) @ tr')"
    "length pts' = m" "length tr' = m" "noRepeat cons \<longrightarrow> trace_ok d tr'"
    "\<forall>e \<in> set tr'. \<exists>c. fst e = random_index (rnd c) (length targets)"
    using m by auto
  have step: "chaos_loop targets lambda iters cons rnd i p lastIndex ctr pts trace =
      chaos_loop targets lambda iters cons rnd (i + 1) ?p d ctr' (pts @ [?p]) (trace @ [(d, ?a)])"
    by (subst chaos_loop.simps) (simp add: lt r Let_def)
  have ok: "noRepeat cons \<longrightarrow> ?a \<longrightarrow> d \<noteq> lastIndex"
    by (simp add: rejected_def)
  have rng: "\<forall>e \<in> set ((d, ?a) # tr'). \<exists>c. fst e = random_index (rnd c) (length targets)"
    using IH(5) d by auto
  show ?case
    unfolding step IH(1)
    by (intro exI [of _ "?p # pts'"] exI [of _ "(d, ?a) # tr'"] conjI rng)
       (simp_all add: IH ok s)
qed

lemma chaos_run_trace:
  "targets \<noteq> [] \<Longrightarrow>
   length (generateChaosGame targets lambda iters cons rnd) = iters
   \<and> length (chaos_trace targets lambda iters cons rnd) = iters
   \<and> (noRepeat cons \<longrightarrow> trace_ok (- 1) (chaos_trace targets lambda iters cons rnd))
   \<and> (\<forall>e \<in> set (chaos_trace targets lambda iters cons rnd).
         \<exists>c. fst e = random_index (rnd c) (length targets))"
  using chaos_loop_trace [of targets lambda iters cons rnd 0 "(0, 0, 0)" "- 1" 0 "[]" "[]"]
  by (auto simp: generateChaosGame_def chaos_trace_def chaos_run_def)

lemma trace_ok_nth:
  "trace_ok prev tr \<Longrightarrow> k < length tr \<Longrightarrow> snd (tr ! k) \<Longrightarrow>
   fst (tr ! k) \<noteq> (if k = 0 then prev else fst (tr ! (k - 1)))"
proof (induction tr arbitrary: prev k)
  case Nil
  then show ?case by simp
next
  case (Cons e tr)
  obtain ix a where e: "e = (ix, a)" by (cases e)
  show ?case
  proof (cases k)
    case 0
    with Cons.prems e show ?thesis by simp
  next
    case (Suc k')
    with Cons.prems e have "trace_ok ix tr" "k' < length tr" "snd (tr ! k')" by simp_all
    from Cons.IH [OF this] Suc e show ?thesis by (cases k') simp_all
  qed
qed

lemma js_or_zero: "- (2 ^ 31) \<le> x \<Longrightarrow> x < 2 ^ 31 \<Longrightarrow> js_or x 0 = x"
  by (simp add: js_or_def toInt32_def signed_of_int signed_take_bit_int_eq_self)

lemma random_index_range:
  assumes "0 \<le> u" "u < 1" "0 < len" "len < 2 ^ 31"
  shows "0 \<le> random_index u len \<and> random_index u len < int len"
proof -
  let ?v = "u * real len"
  have v: "0 \<le> ?v" "?v < real len" using assms by simp_all
  then have f: "0 \<le> \<lfloor>?v\<rfloor>" "\<lfloor>?v\<rfloor> < int len" by (simp_all add: floor_less_iff)
  moreover have "int len < 2 ^ 31" using assms(4) by (simp flip: of_nat_less_iff)
  ultimately have "js_or \<lfloor>?v\<rfloor> 0 = \<lfloor>?v\<rfloor>" by (intro js_or_zero) linarith+
  with v f show ?thesis by (simp add: random_index_def Let_def)
qed

text \<open>
  C3. Each step of the constrained chaos game draws at most 20 times: the draws before
  the last were all rejected, the index used is the last draw, and the last draw is
  either acceptable or the 20th (it is then used although rejected). Hence with
  \<open>noRepeat\<close> set, an index that was accepted within the cap differs from the index
  emitted before it. One point is emitted per step, and with a random source in
  \<open>[0, 1)\<close> every emitted index addresses a target.
\<close>

theorem generateChaosGame_bounded_retry:
  "(\<exists>k<20.
      (\<forall>j<k. rejected targets cons p lastIndex (random_index (rnd (ctr + j)) (length targets)))
      \<and> retry_loop targets cons rnd p lastIndex 0 ctr None =
          (Some (random_index (rnd (ctr + k)) (length targets)), ctr + k + 1,
           \<not> rejected targets cons p lastIndex (random_index (rnd (ctr + k)) (length targets)))
      \<and> (rejected targets cons p lastIndex (random_index (rnd (ctr + k)) (length targets))
           \<longrightarrow> k = 19))
   \<and> (noRepeat cons \<longrightarrow>
        (\<forall>k. k + 1 < length (chaos_trace targets lambda iters cons rnd)
              \<and> snd (chaos_trace targets lambda iters cons rnd ! (k + 1))
           \<longrightarrow> fst (chaos_trace targets lambda iters cons rnd ! (k + 1))
                 \<noteq> fst (chaos_trace targets lambda iters cons rnd ! k)))
   \<and> (targets \<noteq> [] \<longrightarrow>
        length (generateChaosGame targets lambda iters cons rnd) = iters
        \<and> length (chaos_trace targets lambda iters cons rnd) = iters)
   \<and> (targets \<noteq> [] \<and> length targets < 2 ^ 31 \<and> (\<forall>c. 0 \<le> rnd c \<and> rnd c < 1) \<longrightarrow>
        (\<forall>e \<in> set (chaos_trace targets lambda iters cons rnd).
           0 \<le> fst e \<and> fst e < int (length targets)))"
proof (intro conjI impI allI ballI)
  from retry_loop_spec [of 0 targets cons p lastIndex rnd ctr None]
  show "\<exists>k<20.
      (\<forall>j<k. rejected targets cons p lastIndex (random_index (rnd (ctr + j)) (length targets)))
      \<and> retry_loop targets cons rnd p lastIndex 0 ctr None =
          (Some (random_index (rnd (ctr + k)) (length targets)), ctr + k + 1,
           \<not> rejected targets cons p lastIndex (random_index (rnd (ctr + k)) (length targets)))
      \<and> (rejected targets cons p lastIndex (random_index (rnd (ctr + k)) (length targets))
           \<longrightarrow> k = 19)"
    by simp
next
  fix k
  let ?tr = "chaos_trace targets lambda iters cons rnd"
  assume nr: "noRepeat cons" and k: "k + 1 < length ?tr \<and> snd (?tr ! (k + 1))"
  have "trace_ok (- 1) ?tr"
  proof (cases "targets = []")
    case True
    then show ?thesis by (simp add: chaos_trace_def chaos_run_def)
  next
    case False
    from chaos_run_trace [OF this, of lambda iters cons rnd] nr show ?thesis by simp
  qed
  from trace_ok_nth [OF this, of "k + 1"] k
  show "fst (?tr ! (k + 1)) \<noteq> fst (?tr ! k)" by simp
next
  assume "targets \<noteq> []"
  from chaos_run_trace [OF this, of lambda iters cons rnd]
  show "length (generateChaosGame targets lambda iters cons rnd) = iters" by simp
next
  assume "targets \<noteq> []"
  from chaos_run_trace [OF this, of lambda iters cons rnd]
  show "length (chaos_trace targets lambda iters cons rnd) = iters" by simp
next
  fix e
  assume a: "targets \<noteq> [] \<and> length targets < 2 ^ 31 \<and> (\<forall>c. 0 \<le> rnd c \<and> rnd c < 1)"
    and e: "e \<in> set (chaos_trace targets lambda iters cons rnd)"
  from a chaos_run_trace [of targets lambda iters cons rnd] e
  obtain c where c: "fst e = random_index (rnd c) (length targets)" by blast
  from a have "0 \<le> rnd c" "rnd c < 1" "0 < length targets" "length targets < 2 ^ 31"
    by simp_all
  from random_index_range [OF this] c
  show "0 \<le> fst e" and "fst e < int (length targets)" by simp_all
qed

lemma chaos_trace_retry_example:
  "chaos_trace tetra_vertices (1 / 2) 3 noRepeat_only (\<lambda>c. real (c div 2 mod 4) / 4)
     = [(0, True), (1, True), (2, True)]"
  by (simp add: chaos_trace_def chaos_run_def tetra_vertices_def noRepeat_only_def
      chaos_loop.simps retry_loop.simps random_index_def js_or_def toInt32_def Let_def)

lemma chaos_trace_cap_example:
  "chaos_trace tetra_vertices (1 / 2) 2 noRepeat_only (\<lambda>c. 0) = [(0, True), (0, False)]"
  by (simp add: chaos_trace_def chaos_run_def tetra_vertices_def noRepeat_only_def
      chaos_loop.simps retry_loop.simps random_index_def js_or_def toInt32_def Let_def)

theorem generateChaosGame_bounded_retry_witness:
  "noRepeat noRepeat_only
   \<and> 0 + 1 < length (chaos_trace tetra_vertices (1 / 2) 3 noRepeat_only (\<lambda>c. real (c div 2 mod 4) / 4))
   \<and> snd (chaos_trace tetra_vertices (1 / 2) 3 noRepeat_only (\<lambda>c. real (c div 2 mod 4) / 4) ! (0 + 1))
   \<and> fst (chaos_trace tetra_vertices (1 / 2) 3 noRepeat_only (\<lambda>c. real (c div 2 mod 4) / 4) ! (0 + 1))
       \<noteq> fst (chaos_trace tetra_vertices (1 / 2) 3 noRepeat_only (\<lambda>c. real (c div 2 mod 4) / 4) ! 0)
   \<and> chaos_trace tetra_vertices (1 / 2) 3 noRepeat_only (\<lambda>c. real (c div 2 mod 4) / 4)
       = [(0, True), (1, True), (2, True)]
   \<and> chaos_trace tetra_vertices (1 / 2) 2 noRepeat_only (\<lambda>c. 0) = [(0, True), (0, False)]"
proof -
  let ?tr = "chaos_trace tetra_vertices (1 / 2) 3 noRepeat_only (\<lambda>c. real (c div 2 mod 4) / 4)"
  have n: "noRepeat noRepeat_only" by (simp add: noRepeat_only_def)
  have h: "0 + 1 < length ?tr \<and> snd (?tr ! (0 + 1))" by (simp add: chaos_trace_retry_example)
  from generateChaosGame_bounded_retry [where targets = tetra_vertices and cons = noRepeat_only
      and p = "(0, 0, 0)" and lastIndex = "- 1" and ctr = 0 and lambda = "1 / 2" and iters = 3
      and rnd = "\<lambda>c. real (c div 2 mod 4) / 4"]
  have "noRepeat noRepeat_only \<longrightarrow>
        (\<forall>k. k + 1 < length ?tr \<and> snd (?tr ! (k + 1)) \<longrightarrow> fst (?tr ! (k + 1)) \<noteq> fst (?tr ! k))"
    by blast
  with n h have "fst (?tr ! (0 + 1)) \<noteq> fst (?tr ! 0)" by blast
  with n h chaos_trace_retry_example chaos_trace_cap_example show ?thesis by simp
qed

subsection \<open>Double-precision rounding and the affine chaos game\<close>

lemma dbl_ulp_pos: "0 < dbl_ulp x"
  by (simp add: dbl_ulp_def)

lemma dbl_min_normal_powr: "dbl_min_normal = 2 powr (- 1022)"
proof -
  have "(2::real) powr (- 1022) = 1 / 2 powr (real 1022)"
    by (simp only: powr_minus_divide) simp
  also have "(2::real) powr (real 1022) = 2 ^ 1022" by (rule powr_realpow) simp
  finally show ?thesis by (simp only: dbl_min_normal_def)
qed

lemma dbl_min_normal_pos: "0 < dbl_min_normal"
  by (simp add: dbl_min_normal_powr)

lemma dbl_exponent_ge: "- 1022 \<le> dbl_exponent x"
proof (cases "\<bar>x\<bar> < dbl_min_normal")
  case True
  then show ?thesis by (simp add: dbl_exponent_def)
next
  case False
  then have "2 powr (- 1022) \<le> \<bar>x\<bar>" by (simp add: dbl_min_normal_powr)
  moreover from this have "0 < \<bar>x\<bar>"
    by (rule less_le_trans [rotated]) simp
  ultimately have "- 1022 \<le> log 2 \<bar>x\<bar>" by (subst le_log_iff) simp_all
  then have "- 1022 \<le> \<lfloor>log 2 \<bar>x\<bar>\<rfloor>" by (simp add: le_floor_iff)
  with False show ?thesis by (simp add: dbl_exponent_def)
qed

lemma dbl_exponent_upper: "\<bar>x\<bar> < 2 powr (of_int (dbl_exponent x) + 1)"
proof (cases "\<bar>x\<bar> < dbl_min_normal")
  case True
  have "(2::real) powr (- 1022) \<le> 2 powr (- 1021)" by (rule powr_mono) simp_all
  moreover from True have "\<bar>x\<bar> < 2 powr (- 1022)" by (simp add: dbl_min_normal_powr)
  ultimately have "\<bar>x\<bar> < 2 powr (- 1021)" by linarith
  with True show ?thesis by (simp add: dbl_exponent_def)
next
  case False
  then have pos: "0 < \<bar>x\<bar>" using dbl_min_normal_pos by linarith
  have "log 2 \<bar>x\<bar> < of_int \<lfloor>log 2 \<bar>x\<bar>\<rfloor> + 1" by linarith
  then have "\<bar>x\<bar> < 2 powr (of_int \<lfloor>log 2 \<bar>x\<bar>\<rfloor> + 1)"
    using pos by (subst (asm) log_less_iff) simp_all
  with False show ?thesis by (simp add: dbl_exponent_def)
qed

lemma dbl_exponent_le:
  assumes "- 1022 \<le> E" "\<bar>x\<bar> < 2 powr (of_int E + 1)"
  shows "dbl_exponent x \<le> E"
proof (cases "\<bar>x\<bar> < dbl_min_normal")
  case True
  with assms(1) show ?thesis by (simp add: dbl_exponent_def)
next
  case False
  then have pos: "0 < \<bar>x\<bar>" using dbl_min_normal_pos by linarith
  from assms(2) pos have "log 2 \<bar>x\<bar> < of_int E + 1"
    by (subst log_less_iff) simp_all
  then have "\<lfloor>log 2 \<bar>x\<bar>\<rfloor> \<le> E" by (simp add: floor_le_iff)
  with False show ?thesis by (simp add: dbl_exponent_def)
qed

lemma dbl_exponent_mono: "\<bar>z\<bar> \<le> \<bar>w\<bar> \<Longrightarrow> dbl_exponent z \<le> dbl_exponent w"
  by (rule dbl_exponent_le [OF dbl_exponent_ge])
     (rule le_less_trans [OF _ dbl_exponent_upper])

lemma dbl_ulp_ratio:
  assumes "dbl_exponent z \<le> E"
  shows "2 powr (of_int E - 52) = 2 ^ nat (E - dbl_exponent z) * dbl_ulp z"
proof -
  have "2 powr (of_int E - 52) =
        2 powr (real (nat (E - dbl_exponent z)) + (of_int (dbl_exponent z) - 52))"
    using assms by simp
  also have "\<dots> = 2 powr real (nat (E - dbl_exponent z)) * dbl_ulp z"
    by (simp only: powr_add dbl_ulp_def)
  also have "2 powr real (nat (E - dbl_exponent z)) = 2 ^ nat (E - dbl_exponent z)"
    by (rule powr_realpow) simp
  finally show ?thesis .
qed

lemma round_half_even_cases:
  "round_half_even t = \<lfloor>t\<rfloor> \<or> (round_half_even t = \<lfloor>t\<rfloor> + 1 \<and> 1 / 2 \<le> t - of_int \<lfloor>t\<rfloor>)"
  by (auto simp: round_half_even_def Let_def)

lemma round_half_even_le: "t \<le> of_int m \<Longrightarrow> round_half_even t \<le> m"
  using round_half_even_cases [of t] by (auto simp: floor_le_iff) (linarith+)?

lemma round_half_even_ge: "of_int m \<le> t \<Longrightarrow> m \<le> round_half_even t"
  using round_half_even_cases [of t] by (auto simp: le_floor_iff) (linarith+)?

lemma round_half_even_of_int: "round_half_even (of_int m) = m"
  by (simp add: round_half_even_def)

lemma round_double_fixed:
  assumes "of_int \<lfloor>x / dbl_ulp x\<rfloor> = x / dbl_ulp x"
  shows "round_double x = x"
proof -
  from assms obtain m :: int where m: "x / dbl_ulp x = of_int m" by metis
  have "round_double x = dbl_ulp x * of_int (round_half_even (of_int m))"
    by (simp only: round_double_def m)
  also have "\<dots> = dbl_ulp x * (x / dbl_ulp x)"
    by (simp only: round_half_even_of_int m)
  also have "\<dots> = x" using dbl_ulp_pos [of x] by simp
  finally show ?thesis .
qed

lemma on_grid:
  assumes r: "r = of_int k * 2 powr (of_int E - 52)" and e: "dbl_exponent r \<le> E"
  shows "of_int \<lfloor>r / dbl_ulp r\<rfloor> = r / dbl_ulp r"
proof -
  have "of_int k * 2 powr (of_int E - 52) =
        of_int k * (2 ^ nat (E - dbl_exponent r) * dbl_ulp r)"
    by (simp only: dbl_ulp_ratio [OF e, symmetric])
  with r have "r = of_int k * (2 ^ nat (E - dbl_exponent r) * dbl_ulp r)"
    by (rule trans)
  then have "r / dbl_ulp r = of_int k * 2 ^ nat (E - dbl_exponent r)"
    using dbl_ulp_pos [of r] by (metis mult.assoc nonzero_eq_divide_eq order_less_irrefl)
  then have "r / dbl_ulp r = of_int (k * 2 ^ nat (E - dbl_exponent r))" by simp
  then show ?thesis by (simp only: floor_of_int)
qed

lemma round_double_abs_le:
  assumes g: "of_int \<lfloor>w / dbl_ulp w\<rfloor> = w / dbl_ulp w" and le: "\<bar>z\<bar> \<le> \<bar>w\<bar>"
  shows "\<bar>round_double z\<bar> \<le> \<bar>w\<bar>"
proof -
  let ?u = "dbl_ulp z"
  have u: "0 < ?u" by (rule dbl_ulp_pos)
  from g obtain m :: int where m: "w / dbl_ulp w = of_int m" by metis
  define j where "j = nat (dbl_exponent w - dbl_exponent z)"
  have "dbl_ulp w = 2 ^ j * ?u"
    unfolding j_def using dbl_ulp_ratio [OF dbl_exponent_mono [OF le]]
    by (simp only: dbl_ulp_def)
  moreover from m have "w = of_int m * dbl_ulp w"
    using dbl_ulp_pos [of w] by (simp add: field_simps)
  ultimately have "w = of_int m * (2 ^ j * ?u)" by simp
  then have "\<bar>w\<bar> = \<bar>of_int m * (2 ^ j * ?u)\<bar>" by simp
  also have "\<dots> = of_int (\<bar>m\<bar> * 2 ^ j) * ?u"
    using u by (simp add: abs_mult)
  finally have w: "\<bar>w\<bar> = of_int (\<bar>m\<bar> * 2 ^ j) * ?u" .
  let ?M = "\<bar>m\<bar> * 2 ^ j"
  from le w have "z \<le> of_int ?M * ?u" "- (of_int ?M * ?u) \<le> z" by linarith+
  with u have q: "z / ?u \<le> of_int ?M" "of_int (- ?M) \<le> z / ?u"
    by (simp_all add: field_simps)
  have "round_half_even (z / ?u) \<le> ?M" by (rule round_half_even_le [OF q(1)])
  moreover have "- ?M \<le> round_half_even (z / ?u)" by (rule round_half_even_ge [OF q(2)])
  ultimately have "\<bar>round_half_even (z / ?u)\<bar> \<le> ?M" by linarith
  then have "\<bar>of_int (round_half_even (z / ?u)) :: real\<bar> \<le> of_int ?M"
    by (metis of_int_abs of_int_le_iff)
  then have "?u * \<bar>of_int (round_half_even (z / ?u))\<bar> \<le> ?u * of_int ?M"
    using u by (intro mult_left_mono) simp_all
  moreover have "\<bar>round_double z\<bar> = ?u * \<bar>of_int (round_half_even (z / ?u))\<bar>"
    using u by (simp add: round_double_def abs_mult)
  ultimately show ?thesis using w by (simp add: mult.commute)
qed

lemma powr_53: "(2::real) powr 53 = 2 ^ 53"
  using powr_realpow [of 2 53] by simp

lemma round_double_grid:
  "of_int \<lfloor>round_double z / dbl_ulp (round_double z)\<rfloor>
     = round_double z / dbl_ulp (round_double z)"
proof -
  let ?e = "dbl_exponent z" and ?u = "dbl_ulp z" and ?k = "round_half_even (z / dbl_ulp z)"
  let ?r = "round_double z"
  have u: "0 < ?u" by (rule dbl_ulp_pos)
  have r: "?r = of_int ?k * 2 powr (of_int ?e - 52)"
    by (simp add: round_double_def dbl_ulp_def)
  have top: "(2::real) powr (of_int ?e + 1) = 2 ^ 53 * ?u"
  proof -
    have "(2::real) powr (of_int ?e + 1) = 2 powr (53 + (of_int ?e - 52))"
      by (simp add: add.commute)
    also have "\<dots> = 2 powr 53 * ?u" by (simp only: powr_add dbl_ulp_def)
    finally show ?thesis by (simp only: powr_53)
  qed
  from dbl_exponent_upper [of z] top have "\<bar>z\<bar> < 2 ^ 53 * ?u" by simp
  then have q: "z / ?u \<le> of_int (2 ^ 53)" "of_int (- (2 ^ 53)) \<le> z / ?u"
    using u by (simp_all add: field_simps)
  have k: "?k \<le> 2 ^ 53" "- (2 ^ 53) \<le> ?k"
    by (rule round_half_even_le [OF q(1)], rule round_half_even_ge [OF q(2)])
  consider "\<bar>?k\<bar> < 2 ^ 53" | "?k = 2 ^ 53" | "?k = - (2 ^ 53)" using k by linarith
  then show ?thesis
  proof cases
    case 1
    then have "\<bar>?k\<bar> + 1 \<le> 2 ^ 53" by simp
    then have "(of_int (\<bar>?k\<bar> + 1) :: real) \<le> of_int (2 ^ 53)"
      by (simp only: of_int_le_iff)
    then have "\<bar>of_int ?k :: real\<bar> \<le> 2 ^ 53 - 1" by simp
    then have "\<bar>of_int ?k\<bar> * ?u \<le> (2 ^ 53 - 1) * ?u"
      using u by (intro mult_right_mono) simp_all
    also have "\<dots> < 2 ^ 53 * ?u" using u by simp
    finally have "\<bar>?r\<bar> < 2 powr (of_int ?e + 1)"
      using u by (simp only: top) (simp add: round_double_def abs_mult mult.commute)
    with dbl_exponent_ge have "dbl_exponent ?r \<le> ?e" by (rule dbl_exponent_le)
    with r show ?thesis by (rule on_grid)
  next
    case 2
    have two: "(2::real) powr (of_int (?e + 1) - 52) = 2 * ?u"
    proof -
      have "(2::real) powr (of_int (?e + 1) - 52) = 2 powr (1 + (of_int ?e - 52))"
        by (simp add: add.commute)
      also have "\<dots> = 2 powr 1 * ?u" by (simp only: powr_add dbl_ulp_def)
      finally show ?thesis by simp
    qed
    from 2 have rv: "?r = 2 ^ 53 * ?u" by (simp add: round_double_def)
    then have r2: "?r = of_int (2 ^ 52) * 2 powr (of_int (?e + 1) - 52)"
      by (simp only: two) simp
    have "(2::real) powr (of_int ?e + 1) < 2 powr (of_int (?e + 1) + 1)"
      by (rule powr_less_mono) simp_all
    with rv top u have "\<bar>?r\<bar> < 2 powr (of_int (?e + 1) + 1)" by simp
    moreover have "- 1022 \<le> ?e + 1" using dbl_exponent_ge [of z] by simp
    ultimately have "dbl_exponent ?r \<le> ?e + 1" by (intro dbl_exponent_le)
    with r2 show ?thesis by (rule on_grid)
  next
    case 3
    have two: "(2::real) powr (of_int (?e + 1) - 52) = 2 * ?u"
    proof -
      have "(2::real) powr (of_int (?e + 1) - 52) = 2 powr (1 + (of_int ?e - 52))"
        by (simp add: add.commute)
      also have "\<dots> = 2 powr 1 * ?u" by (simp only: powr_add dbl_ulp_def)
      finally show ?thesis by simp
    qed
    from 3 have rv: "?r = - (2 ^ 53 * ?u)" by (simp add: round_double_def)
    then have r2: "?r = of_int (- (2 ^ 52)) * 2 powr (of_int (?e + 1) - 52)"
      by (simp only: two) simp
    have "(2::real) powr (of_int ?e + 1) < 2 powr (of_int (?e + 1) + 1)"
      by (rule powr_less_mono) simp_all
    with rv top u have "\<bar>?r\<bar> < 2 powr (of_int (?e + 1) + 1)" by simp
    moreover have "- 1022 \<le> ?e + 1" using dbl_exponent_ge [of z] by simp
    ultimately have "dbl_exponent ?r \<le> ?e + 1" by (intro dbl_exponent_le)
    with r2 show ?thesis by (rule on_grid)
  qed
qed

lemma chooseMap_Shrinking_Square: "chooseMap Shrinking_Square r = Some (hd Shrinking_Square)"
  by (simp add: chooseMap_def Shrinking_Square_def Let_def)

lemma round_double_zero: "round_double 0 = 0"
  by (simp add: round_double_def round_half_even_def)

lemma round_js_small: "\<bar>round_double x\<bar> < 2 ^ 1024 \<Longrightarrow> round_js (Fin x) = Fin (round_double x)"
  by (simp add: Let_def) linarith

lemma round_double_twice: "round_double (round_double x) = round_double x"
  by (rule round_double_fixed) (rule round_double_grid)

lemma halve_double:
  assumes "is_double x"
  shows "fl_add (fl_add (fl_mul (Fin (1 / 2)) (Fin x)) (fl_mul (Fin 0) (Fin y))) (Fin 0)
           = Fin (round_double (x / 2))"
    and "fl_add (fl_add (fl_mul (Fin 0) (Fin y)) (fl_mul (Fin (1 / 2)) (Fin x))) (Fin 0)
           = Fin (round_double (x / 2))"
    and "is_double (round_double (x / 2))"
    and "\<bar>round_double (x / 2)\<bar> \<le> \<bar>x\<bar>"
proof -
  from assms have g: "of_int \<lfloor>x / dbl_ulp x\<rfloor> = x / dbl_ulp x" and b: "\<bar>x\<bar> < 2 ^ 1024"
    by (simp_all add: is_double_def)
  have "\<bar>x / 2\<bar> \<le> \<bar>x\<bar>" by simp
  with g show le: "\<bar>round_double (x / 2)\<bar> \<le> \<bar>x\<bar>" by (rule round_double_abs_le)
  with b have s: "\<bar>round_double (x / 2)\<bar> < 2 ^ 1024" by linarith
  then show "is_double (round_double (x / 2))"
    by (simp add: is_double_def round_double_grid)
  have z: "fl_mul (Fin 0) (Fin y) = Fin 0"
    by (simp add: fl_mul_def round_double_zero)
  have m: "fl_mul (Fin (1 / 2)) (Fin x) = Fin (round_double (x / 2))"
    using round_js_small [OF s] by (simp add: fl_mul_def)
  have a: "fl_add (Fin (round_double (x / 2))) (Fin 0) = Fin (round_double (x / 2))"
    using round_js_small [of "round_double (x / 2)"] s
    by (simp add: fl_add_def round_double_twice)
  have a': "fl_add (Fin 0) (Fin (round_double (x / 2))) = Fin (round_double (x / 2))"
    using round_js_small [of "round_double (x / 2)"] s
    by (simp add: fl_add_def round_double_twice)
  show "fl_add (fl_add (fl_mul (Fin (1 / 2)) (Fin x)) (fl_mul (Fin 0) (Fin y))) (Fin 0)
           = Fin (round_double (x / 2))"
    by (simp only: z m a)
  show "fl_add (fl_add (fl_mul (Fin 0) (Fin y)) (fl_mul (Fin (1 / 2)) (Fin x))) (Fin 0)
           = Fin (round_double (x / 2))"
    by (simp only: z m a a')
qed

lemma applyAffine_Shrinking_Square:
  "is_double x \<Longrightarrow> is_double y \<Longrightarrow>
   applyAffine (Fin x, Fin y) (hd Shrinking_Square)
     = (Fin (round_double (x / 2)), Fin (round_double (y / 2)))"
proof -
  assume x: "is_double x" and y: "is_double y"
  show ?thesis
    by (simp add: applyAffine_def Shrinking_Square_def halve_double(1) [OF x]
        halve_double(2) [OF y])
qed

lemma generateAffine_loop_Shrinking_Square:
  "is_double (fst q) \<Longrightarrow> is_double (snd q) \<Longrightarrow>
   generateAffine_loop Shrinking_Square n rnd i (fin_point q) points
     = Some (points @ map fin_point (dbl_halvings (n - i) q))"
proof (induction "n - i" arbitrary: i q points)
  case 0
  then show ?case by (subst generateAffine_loop.simps) simp
next
  case (Suc k)
  then have lt: "i < n" and k: "k = n - Suc i" and s: "n - i = Suc k" by simp_all
  let ?q = "(round_double (fst q / 2), round_double (snd q / 2))"
  have d: "is_double (fst ?q)" "is_double (snd ?q)"
    using halve_double(3) [OF Suc.prems(1)] halve_double(3) [OF Suc.prems(2)] by simp_all
  have a: "applyAffine (fin_point q) (hd Shrinking_Square) = fin_point ?q"
    using applyAffine_Shrinking_Square [OF Suc.prems] by (simp add: fin_point_def)
  show ?case
    by (subst generateAffine_loop.simps)
      (simp add: lt chooseMap_Shrinking_Square a Suc.hyps(1) [OF k d] s Let_def k [symmetric])
qed

lemma dbl_halvings_length: "length (dbl_halvings k p) = k"
  by (induction k arbitrary: p) simp_all

lemma pnorm_mono:
  "\<bar>fst p\<bar> \<le> \<bar>fst q\<bar> \<Longrightarrow> \<bar>snd p\<bar> \<le> \<bar>snd q\<bar> \<Longrightarrow> pnorm p \<le> pnorm q"
proof -
  assume a: "\<bar>fst p\<bar> \<le> \<bar>fst q\<bar>" and b: "\<bar>snd p\<bar> \<le> \<bar>snd q\<bar>"
  have "fst p * fst p \<le> fst q * fst q"
    using a abs_le_square_iff [of "fst p" "fst q"] by (simp add: power2_eq_square)
  moreover have "snd p * snd p \<le> snd q * snd q"
    using b abs_le_square_iff [of "snd p" "snd q"] by (simp add: power2_eq_square)
  ultimately show ?thesis by (simp add: pnorm_def add_mono)
qed

lemma pnorm_half: "pnorm (fst p / 2, snd p / 2) = pnorm p / 2"
proof -
  have "fst p / 2 * (fst p / 2) + snd p / 2 * (snd p / 2) = (fst p * fst p + snd p * snd p) / 4"
    by (simp add: field_simps)
  then show ?thesis
    unfolding pnorm_def by (simp only: fst_conv snd_conv real_sqrt_divide real_sqrt_four)
qed

lemma dbl_halvings_norm:
  "is_double (fst p) \<Longrightarrow> is_double (snd p) \<Longrightarrow> i < k \<Longrightarrow>
   pnorm ((p # dbl_halvings k p) ! (i + 1)) \<le> pnorm ((p # dbl_halvings k p) ! i)
   \<and> (round_double (fst ((p # dbl_halvings k p) ! i) / 2) = fst ((p # dbl_halvings k p) ! i) / 2
       \<and> round_double (snd ((p # dbl_halvings k p) ! i) / 2) = snd ((p # dbl_halvings k p) ! i) / 2
      \<longrightarrow> pnorm ((p # dbl_halvings k p) ! (i + 1)) = 0.5 * pnorm ((p # dbl_halvings k p) ! i))"
proof (induction k arbitrary: p i)
  case 0
  then show ?case by simp
next
  case (Suc k)
  let ?q = "(round_double (fst p / 2), round_double (snd p / 2))"
  show ?case
  proof (cases i)
    case 0
    have le: "pnorm ?q \<le> pnorm p"
      using halve_double(4) [OF Suc.prems(1)] halve_double(4) [OF Suc.prems(2)]
      by (intro pnorm_mono) simp_all
    have ex: "pnorm ?q = 0.5 * pnorm p"
      if "round_double (fst p / 2) = fst p / 2 \<and> round_double (snd p / 2) = snd p / 2"
    proof -
      from that have "pnorm ?q = pnorm (fst p / 2, snd p / 2)" by (simp only:)
      also have "\<dots> = pnorm p / 2" by (rule pnorm_half)
      finally show ?thesis by simp
    qed
    have n1: "(p # dbl_halvings (Suc k) p) ! (i + 1) = ?q"
      and n0: "(p # dbl_halvings (Suc k) p) ! i = p"
      using 0 by simp_all
    show ?thesis unfolding n1 n0 using le ex by blast
  next
    case (Suc j)
    with Suc.prems have j: "j < k" by simp
    have d: "is_double (fst ?q)" "is_double (snd ?q)"
      using halve_double(3) [OF Suc.prems(1)] halve_double(3) [OF Suc.prems(2)] by simp_all
    from Suc.IH [OF d j] Suc show ?thesis by simp
  qed
qed

text \<open>
  C9, amended. For the one-map system \<open>a11 = a22 = 0.5\<close>, \<open>a12 = a21 = 0\<close>, \<open>b = 0\<close>,
  probability 1, whatever the random source, the number of points and the start (two
  finite doubles): the generator returns \<open>n\<close> finite points and the norms never
  increase, \<open>|p\<^sub>i\<^sub>+\<^sub>1| \<le> |p\<^sub>i|\<close>. At every step whose two halvings are exact in double
  arithmetic the norm is exactly halved, \<open>|p\<^sub>i\<^sub>+\<^sub>1| = 0.5 * |p\<^sub>i|\<close>. \<open>p\<^sub>0\<close> is the start.
\<close>

theorem Shrinking_Square_contracts:
  "is_double x0 \<Longrightarrow> is_double y0 \<Longrightarrow>
   \<exists>ps. generateAffineFractal Shrinking_Square n (Fin x0) (Fin y0) rnd = Some (map fin_point ps)
     \<and> length ps = n
     \<and> (\<forall>i<n. pnorm (((x0, y0) # ps) ! (i + 1)) \<le> pnorm (((x0, y0) # ps) ! i)
           \<and> (round_double (fst (((x0, y0) # ps) ! i) / 2) = fst (((x0, y0) # ps) ! i) / 2
               \<and> round_double (snd (((x0, y0) # ps) ! i) / 2) = snd (((x0, y0) # ps) ! i) / 2
              \<longrightarrow> pnorm (((x0, y0) # ps) ! (i + 1)) = 0.5 * pnorm (((x0, y0) # ps) ! i)))"
proof -
  assume x: "is_double x0" and y: "is_double y0"
  have "generateAffineFractal Shrinking_Square n (Fin x0) (Fin y0) rnd
      = Some (map fin_point (dbl_halvings n (x0, y0)))"
    using generateAffine_loop_Shrinking_Square [of "(x0, y0)" n rnd 0 "[]"] x y
    by (simp add: generateAffineFractal_def fin_point_def)
  moreover have "length (dbl_halvings n (x0, y0)) = n" by (rule dbl_halvings_length)
  moreover have "\<forall>i<n. pnorm (((x0, y0) # dbl_halvings n (x0, y0)) ! (i + 1))
         \<le> pnorm (((x0, y0) # dbl_halvings n (x0, y0)) ! i)
       \<and> (round_double (fst (((x0, y0) # dbl_halvings n (x0, y0)) ! i) / 2)
             = fst (((x0, y0) # dbl_halvings n (x0, y0)) ! i) / 2
           \<and> round_double (snd (((x0, y0) # dbl_halvings n (x0, y0)) ! i) / 2)
             = snd (((x0, y0) # dbl_halvings n (x0, y0)) ! i) / 2
          \<longrightarrow> pnorm (((x0, y0) # dbl_halvings n (x0, y0)) ! (i + 1))
             = 0.5 * pnorm (((x0, y0) # dbl_halvings n (x0, y0)) ! i))"
    using dbl_halvings_norm [of "(x0, y0)" _ n] x y by simp
  ultimately show ?thesis by blast
qed

lemma dbl_min_subnormal_powr: "dbl_min_subnormal = 2 powr (- 1074)"
proof -
  have "(2::real) powr (- 1074) = 1 / 2 powr (real 1074)"
    by (simp only: powr_minus_divide) simp
  also have "(2::real) powr (real 1074) = 2 ^ 1074" by (rule powr_realpow) simp
  finally show ?thesis by (simp only: dbl_min_subnormal_def)
qed

lemma dbl_min_subnormal_pos: "0 < dbl_min_subnormal"
  by (simp add: dbl_min_subnormal_powr)

lemma dbl_min_normal_subnormal: "dbl_min_normal = 2 ^ 52 * dbl_min_subnormal"
proof -
  have "(2::real) powr (- 1022) = 2 powr (52 + - 1074)" by simp
  also have "\<dots> = 2 powr 52 * 2 powr (- 1074)" by (simp only: powr_add)
  also have "(2::real) powr 52 = 2 ^ 52" using powr_realpow [of 2 52] by simp
  finally show ?thesis by (simp only: dbl_min_normal_powr dbl_min_subnormal_powr)
qed

lemma dbl_ulp_subnormal: "\<bar>x\<bar> < dbl_min_normal \<Longrightarrow> dbl_ulp x = dbl_min_subnormal"
  by (simp add: dbl_ulp_def dbl_exponent_def dbl_min_subnormal_powr)

lemma small_multiple:
  assumes "\<bar>c\<bar> < 2 ^ 52"
  shows "dbl_ulp (c * dbl_min_subnormal) = dbl_min_subnormal"
proof (rule dbl_ulp_subnormal)
  have "\<bar>c * dbl_min_subnormal\<bar> = \<bar>c\<bar> * dbl_min_subnormal"
    using dbl_min_subnormal_pos by (simp add: abs_mult)
  also have "\<dots> < 2 ^ 52 * dbl_min_subnormal"
    using assms dbl_min_subnormal_pos by (intro mult_strict_right_mono)
  finally show "\<bar>c * dbl_min_subnormal\<bar> < dbl_min_normal"
    by (simp only: dbl_min_normal_subnormal)
qed

lemma round_double_small:
  "\<bar>c\<bar> < 2 ^ 52 \<Longrightarrow>
   round_double (c * dbl_min_subnormal) = of_int (round_half_even c) * dbl_min_subnormal"
  using dbl_min_subnormal_pos by (simp add: round_double_def small_multiple)

lemma dbl_min_subnormal_lt_one: "dbl_min_subnormal < 1"
proof -
  have "(2::real) powr (- 1074) < 2 powr 0" by (rule powr_less_mono) simp_all
  then show ?thesis by (simp add: dbl_min_subnormal_powr)
qed

lemma is_double_small:
  assumes "\<bar>of_int m :: real\<bar> < 2 ^ 52"
  shows "is_double (of_int m * dbl_min_subnormal)"
proof -
  have "\<bar>of_int m * dbl_min_subnormal\<bar> = \<bar>of_int m\<bar> * dbl_min_subnormal"
    using dbl_min_subnormal_pos by (simp add: abs_mult)
  also have "\<dots> \<le> \<bar>of_int m\<bar> * 1"
    using dbl_min_subnormal_lt_one by (intro mult_left_mono) simp_all
  also have "\<dots> < 2 ^ 52" using assms by simp
  also have "(2::real) ^ 52 < 2 ^ 1024" by (rule power_strict_increasing) simp_all
  finally have "\<bar>of_int m * dbl_min_subnormal\<bar> < 2 ^ 1024" .
  moreover have "of_int m * dbl_min_subnormal / dbl_ulp (of_int m * dbl_min_subnormal) = of_int m"
    using dbl_min_subnormal_pos by (simp add: small_multiple [OF assms])
  ultimately show ?thesis by (simp only: is_double_def floor_of_int simp_thms)
qed

lemma round_half_even_3_2: "round_half_even (3 / 2) = 2"
  by (simp add: round_half_even_def Let_def)

lemma halve_3_subnormal: "round_double (3 * dbl_min_subnormal / 2) = 2 * dbl_min_subnormal"
  using round_double_small [of "3 / 2"] by (simp add: round_half_even_3_2)

lemma halve_1_subnormal: "round_double dbl_min_subnormal = dbl_min_subnormal"
  using round_double_small [of 1] by (simp add: round_half_even_def)

lemma is_double_3_subnormal: "is_double (3 * dbl_min_subnormal)"
  using is_double_small [of 3] by simp

lemma is_double_zero: "is_double 0"
  using is_double_small [of 0] by simp

lemma pnorm_axis: "pnorm (a, 0) = \<bar>a\<bar>"
  by (simp add: pnorm_def)

lemma inj_fin_point: "inj fin_point"
  by (rule injI) (simp add: fin_point_def prod_eq_iff)

lemma Shrinking_Square_run_1:
  "generateAffineFractal Shrinking_Square 1 (Fin (3 * dbl_min_subnormal)) (Fin 0) rnd
     = Some [(Fin (2 * dbl_min_subnormal), Fin 0)]"
  using generateAffine_loop_Shrinking_Square [of "(3 * dbl_min_subnormal, 0)" 1 rnd 0 "[]"]
  by (simp add: generateAffineFractal_def fin_point_def is_double_3_subnormal is_double_zero halve_3_subnormal
      round_double_zero)

lemma Shrinking_Square_run_2:
  "generateAffineFractal Shrinking_Square 2 (Fin (3 * dbl_min_subnormal)) (Fin 0) rnd
     = Some (map fin_point [(2 * dbl_min_subnormal, 0), (dbl_min_subnormal, 0)])"
  using generateAffine_loop_Shrinking_Square [of "(3 * dbl_min_subnormal, 0)" 2 rnd 0 "[]"]
  by (simp add: generateAffineFractal_def fin_point_def is_double_3_subnormal is_double_zero halve_3_subnormal halve_1_subnormal
      round_double_zero numeral_2_eq_2)

lemma is_double_normal:
  assumes lo: "2 powr of_int e \<le> \<bar>x\<bar>" and hi: "\<bar>x\<bar> < 2 powr (of_int e + 1)"
    and e: "- 1022 \<le> e" "e < 1024"
    and m: "x * 2 powr (52 - of_int e) = of_int m"
  shows "is_double x"
proof -
  have "(2::real) powr (- 1022) \<le> 2 powr of_int e"
    using e(1) by (intro powr_mono) simp_all
  with lo have "2 powr (- 1022) \<le> \<bar>x\<bar>" by linarith
  then have n: "\<not> \<bar>x\<bar> < dbl_min_normal" by (simp only: dbl_min_normal_powr)
  have pos: "0 < \<bar>x\<bar>" using lo by (rule less_le_trans [rotated]) simp
  have "\<lfloor>log 2 \<bar>x\<bar>\<rfloor> = e"
    using lo hi pos by (subst floor_log_eq_powr_iff) simp_all
  with n have "dbl_exponent x = e" by (simp add: dbl_exponent_def)
  then have u: "dbl_ulp x = 2 powr (of_int e - 52)" by (simp add: dbl_ulp_def)
  have "x / dbl_ulp x = x * inverse (2 powr (of_int e - 52))"
    by (simp only: u divide_inverse)
  also have "inverse (2 powr (of_int e - 52)) = (2::real) powr (- (of_int e - 52))"
    by (simp only: powr_minus)
  also have "- (of_int e - 52) = (52 - of_int e :: real)" by simp
  finally have g: "x / dbl_ulp x = of_int m" using m by simp
  have "(2::real) powr (of_int e + 1) \<le> 2 powr 1024"
    using e(2) by (intro powr_mono) simp_all
  also have "(2::real) powr 1024 = 2 ^ 1024" using powr_realpow [of 2 1024] by simp
  finally have "\<bar>x\<bar> < 2 ^ 1024" using hi by linarith
  with g show ?thesis by (simp only: is_double_def floor_of_int simp_thms)
qed

lemma is_double_4: "is_double 4"
  by (rule is_double_normal [of 2 _ "2 ^ 52"]) (simp_all add: powr_realpow [of 2 50, simplified])

lemma is_double_2: "is_double 2"
  by (rule is_double_normal [of 1 _ "2 ^ 52"]) (simp_all add: powr_realpow [of 2 51, simplified])

lemma is_double_three: "is_double 3"
  by (rule is_double_normal [of 1 _ "3 * 2 ^ 51"])
     (simp_all add: powr_realpow [of 2 51, simplified])

lemma is_double_3_2: "is_double (3 / 2)"
  by (rule is_double_normal [of 0 _ "3 * 2 ^ 51"])
     (simp_all add: powr_realpow [of 2 52, simplified])

lemma is_double_fixed: "is_double x \<Longrightarrow> round_double x = x"
  by (rule round_double_fixed) (simp add: is_double_def)

lemma Shrinking_Square_run_4_3:
  "generateAffineFractal Shrinking_Square 1 (Fin 4) (Fin 3) rnd = Some (map fin_point [(2, 3 / 2)])"
  using generateAffine_loop_Shrinking_Square [of "(4, 3)" 1 rnd 0 "[]"]
  by (simp add: generateAffineFractal_def fin_point_def is_double_4 is_double_three
      is_double_fixed [OF is_double_2] is_double_fixed [OF is_double_3_2])

text \<open>
  C9, as stated, fails: halving the subnormal double \<open>3 * 2 ^ -1074\<close> is a tie and rounds
  to the even neighbour \<open>2 * 2 ^ -1074\<close>, so from the start \<open>(3 * 2 ^ -1074, 0)\<close> the first
  point has a norm above half the norm of the start.
\<close>

theorem Shrinking_Square_half_counterexample:
  "is_double (3 * dbl_min_subnormal)
   \<and> generateAffineFractal Shrinking_Square 1 (Fin (3 * dbl_min_subnormal)) (Fin 0) (\<lambda>_. 0)
       = Some [(Fin (2 * dbl_min_subnormal), Fin 0)]
   \<and> \<not> pnorm (2 * dbl_min_subnormal, 0) \<le> 0.5 * pnorm (3 * dbl_min_subnormal, 0)"
  using dbl_min_subnormal_pos Shrinking_Square_run_1 [of "\<lambda>_. 0"]
  by (simp add: is_double_3_subnormal pnorm_axis)

theorem Shrinking_Square_contracts_witness:
  "is_double (3 * dbl_min_subnormal) \<and> is_double 0
   \<and> generateAffineFractal Shrinking_Square 2 (Fin (3 * dbl_min_subnormal)) (Fin 0) (\<lambda>_. 0)
       = Some [(Fin (2 * dbl_min_subnormal), Fin 0), (Fin dbl_min_subnormal, Fin 0)]
   \<and> pnorm (2 * dbl_min_subnormal, 0) \<le> pnorm (3 * dbl_min_subnormal, 0)
   \<and> pnorm (dbl_min_subnormal, 0) \<le> pnorm (2 * dbl_min_subnormal, 0)
   \<and> round_double (2 * dbl_min_subnormal / 2) = 2 * dbl_min_subnormal / 2
   \<and> pnorm (dbl_min_subnormal, 0) = 0.5 * pnorm (2 * dbl_min_subnormal, 0)
   \<and> is_double 4 \<and> is_double 3
   \<and> generateAffineFractal Shrinking_Square 1 (Fin 4) (Fin 3) (\<lambda>_. 0) = Some [(Fin 2, Fin (3 / 2))]
   \<and> round_double (4 / 2) = 4 / 2 \<and> round_double (3 / 2) = 3 / 2
   \<and> pnorm (2, 3 / 2) = 0.5 * pnorm (4, 3)"
proof -
  let ?s = "[(2 * dbl_min_subnormal, 0), (dbl_min_subnormal, 0 :: real)]"
  from Shrinking_Square_contracts [OF is_double_3_subnormal is_double_zero, of 2 "\<lambda>_. 0"]
  obtain ps where ps:
    "generateAffineFractal Shrinking_Square 2 (Fin (3 * dbl_min_subnormal)) (Fin 0) (\<lambda>_. 0)
       = Some (map fin_point ps)"
    and a: "\<forall>i<2. pnorm (((3 * dbl_min_subnormal, 0) # ps) ! (i + 1))
              \<le> pnorm (((3 * dbl_min_subnormal, 0) # ps) ! i)
           \<and> (round_double (fst (((3 * dbl_min_subnormal, 0) # ps) ! i) / 2)
                 = fst (((3 * dbl_min_subnormal, 0) # ps) ! i) / 2
               \<and> round_double (snd (((3 * dbl_min_subnormal, 0) # ps) ! i) / 2)
                 = snd (((3 * dbl_min_subnormal, 0) # ps) ! i) / 2
              \<longrightarrow> pnorm (((3 * dbl_min_subnormal, 0) # ps) ! (i + 1))
                 = 0.5 * pnorm (((3 * dbl_min_subnormal, 0) # ps) ! i))"
    by blast
  from ps Shrinking_Square_run_2 [of "\<lambda>_. 0"] have "map fin_point ps = map fin_point ?s"
    by simp
  then have e: "ps = ?s" using inj_fin_point by (simp only: inj_map_eq_map)
  have h: "round_double (2 * dbl_min_subnormal / 2) = 2 * dbl_min_subnormal / 2"
    using halve_1_subnormal by simp
  from a [rule_format, of 0] a [rule_format, of 1] h Shrinking_Square_run_2 [of "\<lambda>_. 0"]
  have first: "is_double (3 * dbl_min_subnormal) \<and> is_double 0
   \<and> generateAffineFractal Shrinking_Square 2 (Fin (3 * dbl_min_subnormal)) (Fin 0) (\<lambda>_. 0)
       = Some [(Fin (2 * dbl_min_subnormal), Fin 0), (Fin dbl_min_subnormal, Fin 0)]
   \<and> pnorm (2 * dbl_min_subnormal, 0) \<le> pnorm (3 * dbl_min_subnormal, 0)
   \<and> pnorm (dbl_min_subnormal, 0) \<le> pnorm (2 * dbl_min_subnormal, 0)
   \<and> round_double (2 * dbl_min_subnormal / 2) = 2 * dbl_min_subnormal / 2
   \<and> pnorm (dbl_min_subnormal, 0) = 0.5 * pnorm (2 * dbl_min_subnormal, 0)"
    unfolding e
    by (simp add: is_double_3_subnormal is_double_zero fin_point_def round_double_zero)
  from Shrinking_Square_contracts [OF is_double_4 is_double_three, of 1 "\<lambda>_. 0"]
  obtain qs where qs:
    "generateAffineFractal Shrinking_Square 1 (Fin 4) (Fin 3) (\<lambda>_. 0) = Some (map fin_point qs)"
    and b: "\<forall>i<1. pnorm (((4, 3) # qs) ! (i + 1)) \<le> pnorm (((4, 3) # qs) ! i)
           \<and> (round_double (fst (((4, 3) # qs) ! i) / 2) = fst (((4, 3) # qs) ! i) / 2
               \<and> round_double (snd (((4, 3) # qs) ! i) / 2) = snd (((4, 3) # qs) ! i) / 2
              \<longrightarrow> pnorm (((4, 3) # qs) ! (i + 1)) = 0.5 * pnorm (((4, 3) # qs) ! i))"
    by blast
  from qs Shrinking_Square_run_4_3 [of "\<lambda>_. 0"]
  have "map fin_point qs = map fin_point [(2, 3 / 2)]" by simp
  then have f: "qs = [(2, 3 / 2)]" using inj_fin_point by (simp only: inj_map_eq_map)
  have x2: "round_double (4 / 2) = 4 / 2" using is_double_fixed [OF is_double_2] by simp
  have x3: "round_double (3 / 2) = 3 / 2" by (rule is_double_fixed [OF is_double_3_2])
  from b [rule_format, of 0] x2 x3 have "pnorm (2, 3 / 2) = 0.5 * pnorm (4, 3)"
    unfolding f by simp
  with first x2 x3 Shrinking_Square_run_4_3 [of "\<lambda>_. 0"] show ?thesis
    by (simp add: is_double_4 is_double_three fin_point_def)
qed

end
